theory Spec2Isabelle
  imports Complex_Main "HOL-Library.List_Lexorder" "HOL-Library.Char_ord"
    "HOL-Library.Log_Nat" "HOL-Library.Multiset"
begin

unbundle bit_operations_syntax

text \<open>
  The numeric pipeline of the calcium-imaging repository: the baseline estimators
  (\<open>pipeline/baseline.py\<close>), the normaliser (\<open>pipeline/normalizer.py\<close>) and the
  smoothing filters (\<open>pipeline/filters.py\<close>), as functions on tables of cells. What
  pandas, NumPy and SciPy do for the code is written out from their documented
  behaviour. Every raise of the Python is an \<open>Inl\<close> result.
\<close>

section \<open>Floating-point cells\<close>

text \<open>
  A table cell is a float64: one of the three special values of IEEE-754 or a finite
  value, given by the real number it stands for (there is no signed zero). \<open>NaN\<close> is
  pandas' missing value. The operations \<open>cell_add\<close>, \<open>cell_mul\<close>, \<open>cell_div\<close> below are
  the exact ones, with the rules of IEEE-754 for the special values; the float64
  operations \<open>fadd\<close>, \<open>fsub\<close>, \<open>fmul\<close>, \<open>fdiv\<close> round their result.
\<close>

datatype cell = NaN | PInf | NInf | Fin real

fun isna :: "cell \<Rightarrow> bool" where
  "isna NaN = True"
| "isna _ = False"

fun isinf :: "cell \<Rightarrow> bool" where
  "isinf PInf = True"
| "isinf NInf = True"
| "isinf _ = False"

fun isfinite :: "cell \<Rightarrow> bool" where
  "isfinite (Fin _) = True"
| "isfinite _ = False"

fun cell_neg :: "cell \<Rightarrow> cell" where
  "cell_neg NaN = NaN"
| "cell_neg PInf = NInf"
| "cell_neg NInf = PInf"
| "cell_neg (Fin x) = Fin (- x)"

fun cell_add :: "cell \<Rightarrow> cell \<Rightarrow> cell" where
  "cell_add (Fin a) (Fin b) = Fin (a + b)"
| "cell_add NaN _ = NaN"
| "cell_add _ NaN = NaN"
| "cell_add PInf NInf = NaN"
| "cell_add NInf PInf = NaN"
| "cell_add PInf _ = PInf"
| "cell_add _ PInf = PInf"
| "cell_add NInf _ = NInf"
| "cell_add _ NInf = NInf"

definition cell_sub :: "cell \<Rightarrow> cell \<Rightarrow> cell" where
  "cell_sub a b = cell_add a (cell_neg b)"

text \<open>The sign of a non-missing cell, and the infinity (or NaN) a sign stands for.\<close>

fun sgn_of :: "cell \<Rightarrow> real" where
  "sgn_of PInf = 1"
| "sgn_of NInf = - 1"
| "sgn_of (Fin x) = sgn x"
| "sgn_of NaN = 0"

definition inf_of_sign :: "real \<Rightarrow> cell" where
  "inf_of_sign s = (if s > 0 then PInf else if s < 0 then NInf else NaN)"

fun cell_mul :: "cell \<Rightarrow> cell \<Rightarrow> cell" where
  "cell_mul (Fin a) (Fin b) = Fin (a * b)"
| "cell_mul NaN _ = NaN"
| "cell_mul _ NaN = NaN"
| "cell_mul a b = inf_of_sign (sgn_of a * sgn_of b)"

fun cell_div :: "cell \<Rightarrow> cell \<Rightarrow> cell" where
  "cell_div (Fin a) (Fin b) = (if b = 0 then inf_of_sign (sgn a) else Fin (a / b))"
| "cell_div NaN _ = NaN"
| "cell_div _ NaN = NaN"
| "cell_div (Fin a) _ = Fin 0"
| "cell_div a (Fin b) = inf_of_sign (sgn_of a * (if b < 0 then - 1 else 1))"
| "cell_div _ _ = NaN"

fun cell_abs :: "cell \<Rightarrow> cell" where
  "cell_abs NaN = NaN"
| "cell_abs PInf = PInf"
| "cell_abs NInf = PInf"
| "cell_abs (Fin x) = Fin \<bar>x\<bar>"

text \<open>Comparison \<open>a >= b\<close>: false as soon as one side is NaN.\<close>

fun cell_ge :: "cell \<Rightarrow> cell \<Rightarrow> bool" where
  "cell_ge NaN _ = False"
| "cell_ge _ NaN = False"
| "cell_ge PInf _ = True"
| "cell_ge _ NInf = True"
| "cell_ge NInf _ = False"
| "cell_ge _ PInf = False"
| "cell_ge (Fin a) (Fin b) = (a \<ge> b)"

section \<open>Rounding to float64\<close>

text \<open>
  Python's \<open>round\<close> of a float: to the nearest integer, a tie to the even one. It is also
  how IEEE-754 rounds a quotient by the unit in the last place.
\<close>

definition py_round :: "real \<Rightarrow> int" where
  "py_round x =
     (let f = \<lfloor>x\<rfloor>; d = x - real_of_int f
      in if d < 1 / 2 then f
         else if d > 1 / 2 then f + 1
         else if even f then f else f + 1)"

text \<open>
  \<open>pow2 k\<close> is \<open>2\<close> to the power \<open>k\<close>, and \<open>float_exp x\<close> the binary exponent of a real
  \<open>x \<noteq> 0\<close>: \<open>2 ^ float_exp x \<le> |x| < 2 ^ (float_exp x + 1)\<close>. A float64 has 53
  significant bits and exponents from -1022 (below it the subnormal numbers, spaced by
  \<open>2 ^ -1074\<close>) to 1023. \<open>round_f64\<close> rounds a real to the nearest float64, a tie to the
  even significand, and to an infinity when the rounded value reaches \<open>2 ^ 1024\<close>.
\<close>

definition pow2 :: "int \<Rightarrow> real" where
  "pow2 k = (if k \<ge> 0 then 2 ^ nat k else 1 / 2 ^ nat (- k))"

definition float_exp :: "real \<Rightarrow> int" where
  "float_exp x =
     (let a = \<bar>x\<bar>
      in if a \<ge> 1 then bitlen \<lfloor>a\<rfloor> - 1
         else - bitlen (\<lceil>1 / a\<rceil> - 1))"

definition ulp_of :: "real \<Rightarrow> real" where
  "ulp_of x = pow2 (max (float_exp x) (- 1022) - 52)"

definition f64_nearest :: "real \<Rightarrow> real" where
  "f64_nearest x = ulp_of x * real_of_int (py_round (x / ulp_of x))"

definition round_f64 :: "real \<Rightarrow> cell" where
  "round_f64 x =
     (if x = 0 then Fin 0
      else
        let r = f64_nearest x
        in if \<bar>r\<bar> \<ge> pow2 1024 then (if x > 0 then PInf else NInf) else Fin r)"

text \<open>The float64 operations: the exact result, rounded when it is finite.\<close>

fun frnd :: "cell \<Rightarrow> cell" where
  "frnd (Fin x) = round_f64 x"
| "frnd c = c"

definition fadd :: "cell \<Rightarrow> cell \<Rightarrow> cell" where
  "fadd a b = frnd (cell_add a b)"

definition fsub :: "cell \<Rightarrow> cell \<Rightarrow> cell" where
  "fsub a b = frnd (cell_sub a b)"

definition fmul :: "cell \<Rightarrow> cell \<Rightarrow> cell" where
  "fmul a b = frnd (cell_mul a b)"

definition fdiv :: "cell \<Rightarrow> cell \<Rightarrow> cell" where
  "fdiv a b = frnd (cell_div a b)"

section \<open>Tables\<close>

text \<open>
  A pandas DataFrame: row labels, column labels and the values, stored by column
  (\<open>data df ! j ! i\<close> is the cell of column \<open>j\<close> at row \<open>i\<close>). A Series holds one
  value per label. A baseline is a DataFrame, a Series or a scalar.
\<close>

record ('r, 'c) frame =
  index :: "'r list"
  columns :: "'c list"
  data :: "cell list list"

record 'c series =
  s_index :: "'c list"
  s_values :: "cell list"

datatype ('r, 'c) baselike =
    BFrame "('r, 'c) frame"
  | BSeries "'c series"
  | BScalar cell

definition wf_frame :: "('r, 'c) frame \<Rightarrow> bool" where
  "wf_frame df \<longleftrightarrow>
     length (data df) = length (columns df) \<and>
     list_all (\<lambda>col. length col = length (index df)) (data df)"

definition wf_series :: "'c series \<Rightarrow> bool" where
  "wf_series s \<longleftrightarrow> length (s_values s) = length (s_index s)"

definition nrows :: "('r, 'c) frame \<Rightarrow> nat" where
  "nrows df = length (index df)"

definition ncols :: "('r, 'c) frame \<Rightarrow> nat" where
  "ncols df = length (columns df)"

definition map_cells :: "(cell \<Rightarrow> cell) \<Rightarrow> ('r, 'c) frame \<Rightarrow> ('r, 'c) frame" where
  "map_cells f df = df\<lparr>data := map (map f) (data df)\<rparr>"

datatype error =
  ValueError string | IndexError | ImportError | RuntimeError | TypeError | OverflowError

section \<open>Savitzky-Golay window (filters.py, \<open>_apply_savgol\<close>)\<close>

text \<open>
  The window computed for a table of \<open>n\<close> rows, \<open>n \<ge> 3\<close>:
  \<^verbatim>\<open>win = int(self.savgol_window) | 1\<close>,
  \<^verbatim>\<open>max_odd = n if (n % 2 == 1) else (n - 1)\<close>,
  \<^verbatim>\<open>win = max(3, min(win, max_odd))\<close>.
  Python's \<open>|\<close> on integers is the two's-complement OR, as \<open>OR\<close> on \<open>int\<close> is.
\<close>

definition savgol_win :: "int \<Rightarrow> int \<Rightarrow> int" where
  "savgol_win savgol_window n =
     (let win = savgol_window OR 1;
          max_odd = (if n mod 2 = 1 then n else n - 1);
          win = max 3 (min win max_odd)
      in win)"

text \<open>
  The window as the specification words it: the configured value made odd by rounding
  down when it is even, then clamped to the largest odd number not above the sequence
  length and to at least 3.
\<close>

definition spec_savgol_win :: "int \<Rightarrow> int \<Rightarrow> int" where
  "spec_savgol_win savgol_window n =
     (let win = (if even savgol_window then savgol_window - 1 else savgol_window);
          max_odd = (if odd n then n else n - 1)
      in max 3 (min win max_odd))"


text \<open>
  The configuration of a \<open>FilterApplier\<close> after its constructor has run (the constructor
  lower-cases \<open>method\<close> and converts the numbers); \<open>filter_method\<close> is its \<open>method\<close>.
\<close>

record filter_applier =
  filter_method :: string
  gaussian_sigma :: real
  gauss_boundary :: string
  savgol_window :: int
  savgol_poly :: int

text \<open>
  \<open>_apply_savgol\<close>. \<open>HAVE_SCIPY_SG\<close> is the module's flag. \<open>scipy.signal.savgol_filter\<close>
  is called with its default mode \<open>interp\<close>: it convolves every column with the filter's
  coefficients and then replaces the first and the last half window of the result by a
  polynomial fitted (\<open>numpy.polyfit\<close>) to the first and to the last \<open>win\<close> rows of all
  columns at once. \<open>polyfit\<close> raises ValueError for a negative order, and its least-squares
  solver raises LinAlgError, a subclass of ValueError, when the rows it fits hold a value
  that is not finite. What the routine computes when it returns is a parameter, applied
  to every column on its own with the window and the order the method computed.
\<close>

definition edge_rows :: "int \<Rightarrow> cell list \<Rightarrow> cell list" where
  "edge_rows win col = take (nat win) col @ drop (length col - nat win) col"

definition apply_savgol ::
  "(cell list \<Rightarrow> int \<Rightarrow> int \<Rightarrow> cell list) \<Rightarrow> bool \<Rightarrow> filter_applier
     \<Rightarrow> ('r, 'c) frame \<Rightarrow> error + ('r, 'c) frame" where
  "apply_savgol savgol_filter HAVE_SCIPY_SG self df =
     (if \<not> HAVE_SCIPY_SG then Inl ImportError
      else
        let n = int (nrows df) in
        if n < 3 then Inr df
        else
          let win = savgol_win (savgol_window self) n in
          if savgol_poly self \<ge> win
            then Inl (ValueError ''SAVGOL_POLY must be < SAVGOL_WINDOW'')
          else if win < savgol_poly self + 2
            then Inl (ValueError ''SAVGOL_WINDOW must be at least POLYORDER + 2'')
          else if savgol_poly self < 0
            then Inl (ValueError ''expected deg >= 0'')
          else if list_ex (\<lambda>col. list_ex (\<lambda>c. \<not> isfinite c) (edge_rows win col)) (data df)
            then Inl (ValueError ''SVD did not converge in Linear Least Squares'')
          else Inr (df\<lparr>data := map (\<lambda>col. savgol_filter col win (savgol_poly self)) (data df)\<rparr>))"

section \<open>Label alignment of pandas arithmetic\<close>

text \<open>
  \<open>df - baseline\<close> and \<open>df / baseline\<close> align their operands by label before they
  compute. Equal label lists are left alone. Otherwise the labels are outer-joined: two
  different lists of unique labels give their sorted union, also when one of them is
  empty. An operand is then re-indexed to the joined labels, a label it does not have
  getting missing values.
\<close>

definition join_outer :: "'a::linorder list \<Rightarrow> 'a list \<Rightarrow> 'a list" where
  "join_outer xs ys = (if xs = ys then xs else sort (remdups (xs @ ys)))"

definition reindex :: "'a list \<Rightarrow> 'b list \<Rightarrow> 'b \<Rightarrow> 'a list \<Rightarrow> 'b list" where
  "reindex old vals missing new =
     (if new = old then vals
      else map (\<lambda>l. case map_of (zip old vals) l of None \<Rightarrow> missing | Some v \<Rightarrow> v) new)"

text \<open>A DataFrame against a Series: the Series' index is aligned with the columns.\<close>

definition align_frame_series ::
  "('r, 'c::linorder) frame \<Rightarrow> 'c series \<Rightarrow> ('r, 'c) frame \<times> 'c series" where
  "align_frame_series df s =
     (let cs = join_outer (columns df) (s_index s)
      in (df\<lparr>columns := cs,
              data := reindex (columns df) (data df) (replicate (nrows df) NaN) cs\<rparr>,
          \<lparr>s_index = cs, s_values = reindex (s_index s) (s_values s) NaN cs\<rparr>))"

text \<open>A DataFrame against a DataFrame: both axes are aligned.\<close>

definition reindex_frame ::
  "'r list \<Rightarrow> 'c list \<Rightarrow> ('r, 'c) frame \<Rightarrow> ('r, 'c) frame" where
  "reindex_frame rs cs f =
     \<lparr>index = rs, columns = cs,
      data = reindex (columns f) (map (\<lambda>col. reindex (index f) col NaN rs) (data f))
               (replicate (length rs) NaN) cs\<rparr>"

definition align_frames ::
  "('r::linorder, 'c::linorder) frame \<Rightarrow> ('r, 'c) frame
     \<Rightarrow> ('r, 'c) frame \<times> ('r, 'c) frame" where
  "align_frames a b =
     (let rs = join_outer (index a) (index b);
          cs = join_outer (columns a) (columns b)
      in (reindex_frame rs cs a, reindex_frame rs cs b))"

text \<open>
  A binary operator between a DataFrame and a baseline: elementwise against a DataFrame,
  broadcast over the rows against a Series, broadcast over everything against a scalar.
\<close>

definition frame_op ::
  "(cell \<Rightarrow> cell \<Rightarrow> cell) \<Rightarrow> ('r::linorder, 'c::linorder) frame \<Rightarrow> ('r, 'c) baselike
     \<Rightarrow> ('r, 'c) frame" where
  "frame_op f df baseline =
     (case baseline of
        BScalar b \<Rightarrow> map_cells (\<lambda>x. f x b) df
      | BSeries s \<Rightarrow>
          (case align_frame_series df s of
             (l, r) \<Rightarrow> l\<lparr>data := map2 (\<lambda>col b. map (\<lambda>x. f x b) col) (data l) (s_values r)\<rparr>)
      | BFrame g \<Rightarrow>
          (case align_frames df g of
             (l, r) \<Rightarrow> l\<lparr>data := map2 (map2 f) (data l) (data r)\<rparr>))"

section \<open>Normalizer (normalizer.py)\<close>

text \<open>
  \<open>Normalizer._to_float_df\<close> reads \<^verbatim>\<open>df.dtypes.values[0]\<close>, which raises IndexError on
  a table without columns. The cells of the model are floats already, so the conversion
  itself changes nothing.
\<close>

definition Normalizer_to_float_df :: "('r, 'c) frame \<Rightarrow> error + ('r, 'c) frame" where
  "Normalizer_to_float_df df = (if columns df = [] then Inl IndexError else Inr df)"

text \<open>
  \<open>_safe_baseline\<close>: \<^verbatim>\<open>baseline.where(baseline.abs() >= eps, eps)\<close> for a DataFrame or
  a Series, \<^verbatim>\<open>b if abs(b) >= eps else eps\<close> for a scalar. \<open>safe_cell\<close> is what both do
  to one entry. \<open>eps\<close> and the fill value of \<open>deltaF_over_F\<close> are floats, given by the
  real numbers they stand for.
\<close>

definition safe_cell :: "real \<Rightarrow> cell \<Rightarrow> cell" where
  "safe_cell eps b = (if cell_ge (cell_abs b) (Fin eps) then b else Fin eps)"

definition safe_baseline :: "('r, 'c) baselike \<Rightarrow> real \<Rightarrow> ('r, 'c) baselike" where
  "safe_baseline baseline eps =
     (case baseline of
        BFrame g \<Rightarrow> BFrame (map_cells (safe_cell eps) g)
      | BSeries s \<Rightarrow> BSeries (s\<lparr>s_values := map (safe_cell eps) (s_values s)\<rparr>)
      | BScalar b \<Rightarrow> BScalar (safe_cell eps b))"

definition subtract ::
  "('r::linorder, 'c::linorder) frame \<Rightarrow> ('r, 'c) baselike \<Rightarrow> error + ('r, 'c) frame" where
  "subtract df baseline =
     (case Normalizer_to_float_df df of
        Inl e \<Rightarrow> Inl e
      | Inr df \<Rightarrow> Inr (frame_op fsub df baseline))"

text \<open>The clean-up steps of \<open>deltaF_over_F\<close>, on one cell.\<close>

definition replace_inf :: "cell \<Rightarrow> cell" where
  "replace_inf c = (if isinf c then NaN else c)"

definition fillna :: "real \<Rightarrow> cell \<Rightarrow> cell" where
  "fillna v c = (if isna c then Fin v else c)"

definition clip_lower :: "real \<Rightarrow> cell \<Rightarrow> cell" where
  "clip_lower lo c = (if isna c \<or> cell_ge c (Fin lo) then c else Fin lo)"

definition deltaF_over_F ::
  "('r::linorder, 'c::linorder) frame \<Rightarrow> ('r, 'c) baselike \<Rightarrow> real \<Rightarrow> bool \<Rightarrow> bool
     \<Rightarrow> real option \<Rightarrow> error + ('r, 'c) frame" where
  "deltaF_over_F df baseline eps as_percent clip_negatives fillna_value =
     (case Normalizer_to_float_df df of
        Inl e \<Rightarrow> Inl e
      | Inr df \<Rightarrow>
          let safe_base = safe_baseline baseline eps;
              out = frame_op fdiv (frame_op fsub df safe_base) safe_base;
              out = (if as_percent then map_cells (\<lambda>x. fmul x (Fin 100)) out else out);
              out = map_cells replace_inf out;
              out = (case fillna_value of None \<Rightarrow> out | Some v \<Rightarrow> map_cells (fillna v) out);
              out = (if clip_negatives then map_cells (clip_lower 0) out else out)
          in Inr out)"

text \<open>
  The defaults of \<open>deltaF_over_F\<close>: no percent, no clipping, fill 0.0, and \<open>eps = 1e-12\<close>,
  which as a float64 is \<open>4951760157141521 / 2 ^ 92\<close>.
\<close>

definition default_eps :: real where
  "default_eps = 4951760157141521 / 2 ^ 92"

definition default_fillna_value :: "real option" where
  "default_fillna_value = Some 0"

text \<open>
  Vocabulary of the statements about the Normalizer. \<open>cell_find df r c\<close> is the cell of a
  table at the row labelled \<open>r\<close> and the column labelled \<open>c\<close>, and \<open>baseline_find b r c\<close>
  the entry of a baseline for these labels: the scalar itself, the entry of a Series
  for \<open>c\<close>, the cell of a DataFrame at \<open>r\<close> and \<open>c\<close>; \<open>None\<close> when there is no such label,
  which in the arithmetic of pandas counts as a missing value (\<open>or_nan\<close>). The labels of
  a table and of a baseline are unique (\<open>unique_frame\<close>, \<open>unique_baseline\<close>).

  A baseline is labelled like the table when it is a scalar, a Series indexed by exactly
  the table's columns, or a DataFrame with exactly the table's row and column labels.
  \<open>baseline_entry b j i\<close> is then the baseline value that meets the cell of column \<open>j\<close> at
  row \<open>i\<close>.
\<close>

definition cell_find :: "('r, 'c) frame \<Rightarrow> 'r \<Rightarrow> 'c \<Rightarrow> cell option" where
  "cell_find df r c =
     (case map_of (zip (columns df) (data df)) c of
        None \<Rightarrow> None
      | Some col \<Rightarrow> map_of (zip (index df) col) r)"

definition baseline_find :: "('r, 'c) baselike \<Rightarrow> 'r \<Rightarrow> 'c \<Rightarrow> cell option" where
  "baseline_find baseline r c =
     (case baseline of
        BScalar b \<Rightarrow> Some b
      | BSeries s \<Rightarrow> map_of (zip (s_index s) (s_values s)) c
      | BFrame g \<Rightarrow> cell_find g r c)"

definition or_nan :: "cell option \<Rightarrow> cell" where
  "or_nan v = (case v of None \<Rightarrow> NaN | Some c \<Rightarrow> c)"

definition unique_frame :: "('r, 'c) frame \<Rightarrow> bool" where
  "unique_frame df \<longleftrightarrow> wf_frame df \<and> distinct (index df) \<and> distinct (columns df)"

definition unique_baseline :: "('r, 'c) baselike \<Rightarrow> bool" where
  "unique_baseline baseline =
     (case baseline of
        BScalar b \<Rightarrow> True
      | BSeries s \<Rightarrow> wf_series s \<and> distinct (s_index s)
      | BFrame g \<Rightarrow> unique_frame g)"

definition labelled_like :: "('r, 'c) frame \<Rightarrow> ('r, 'c) baselike \<Rightarrow> bool" where
  "labelled_like df baseline =
     (case baseline of
        BScalar b \<Rightarrow> True
      | BSeries s \<Rightarrow> s_index s = columns df \<and> wf_series s
      | BFrame g \<Rightarrow> index g = index df \<and> columns g = columns df \<and> wf_frame g)"

definition baseline_entry :: "('r, 'c) baselike \<Rightarrow> nat \<Rightarrow> nat \<Rightarrow> cell" where
  "baseline_entry baseline j i =
     (case baseline of
        BScalar b \<Rightarrow> b
      | BSeries s \<Rightarrow> s_values s ! j
      | BFrame g \<Rightarrow> data g ! j ! i)"

definition cell_at :: "('r, 'c) frame \<Rightarrow> nat \<Rightarrow> nat \<Rightarrow> cell" where
  "cell_at df j i = data df ! j ! i"

text \<open>
  What the steps of \<open>deltaF_over_F\<close> after the division do to one cell: the optional
  percent scaling, infinities to NaN, the optional fill of NaN, the optional clipping.
\<close>

definition dff_post :: "bool \<Rightarrow> bool \<Rightarrow> real option \<Rightarrow> cell \<Rightarrow> cell" where
  "dff_post as_percent clip_negatives fillna_value c =
     (let c = (if as_percent then fmul c (Fin 100) else c);
          c = replace_inf c;
          c = (case fillna_value of None \<Rightarrow> c | Some v \<Rightarrow> fillna v c)
      in if clip_negatives then clip_lower 0 c else c)"


section \<open>Column statistics (pandas and NumPy)\<close>

text \<open>Python's slice \<open>xs[a:b]\<close> for integers \<open>a\<close> and \<open>b\<close> (negative ones count from the end).\<close>

definition py_slice :: "int \<Rightarrow> int \<Rightarrow> 'a list \<Rightarrow> 'a list" where
  "py_slice a b xs =
     (let n = int (length xs);
          lo = (if a < 0 then max 0 (a + n) else min a n);
          hi = (if b < 0 then max 0 (b + n) else min b n)
      in take (nat (hi - lo)) (drop (nat lo) xs))"

text \<open>\<open>df.iloc[a:b]\<close>: the rows from position \<open>a\<close> up to, not including, \<open>b\<close>.\<close>

definition iloc_rows :: "int \<Rightarrow> int \<Rightarrow> ('r, 'c) frame \<Rightarrow> ('r, 'c) frame" where
  "iloc_rows a b df = df\<lparr>index := py_slice a b (index df), data := map (py_slice a b) (data df)\<rparr>"

text \<open>Sorting the values that are not missing: \<open>-inf\<close> first, \<open>+inf\<close> last.\<close>

fun insort_cell :: "cell \<Rightarrow> cell list \<Rightarrow> cell list" where
  "insort_cell x [] = [x]"
| "insort_cell x (y # ys) = (if cell_ge y x then x # y # ys else y # insort_cell x ys)"

definition sort_cells :: "cell list \<Rightarrow> cell list" where
  "sort_cells xs = foldr insort_cell xs []"

definition dropna :: "cell list \<Rightarrow> cell list" where
  "dropna xs = filter (\<lambda>c. \<not> isna c) xs"

text \<open>
  The median with \<open>skipna=True\<close>: the middle of the sorted values that are not missing,
  the mean of the two middle ones when their number is even, NaN when there are none.
\<close>

definition median_skipna :: "cell list \<Rightarrow> cell" where
  "median_skipna col =
     (let vs = sort_cells (dropna col); m = length vs
      in if m = 0 then NaN
         else if odd m then vs ! (m div 2)
         else fdiv (fadd (vs ! (m div 2 - 1)) (vs ! (m div 2))) (Fin 2))"

text \<open>
  NumPy's linear interpolation between two neighbours (\<open>_lerp\<close>), and the quantile of the
  values that are not missing at a fraction \<open>q\<close> in \<open>[0, 1]\<close>, with the default method
  \<open>linear\<close>: the position in the sorted values is \<open>(m - 1) * q\<close>, its floor and the next
  position give the two neighbours, the rest the weight.
\<close>

definition lerp :: "cell \<Rightarrow> cell \<Rightarrow> cell \<Rightarrow> cell" where
  "lerp a b t =
     (let diff_b_a = fsub b a
      in if cell_ge t (Fin (1 / 2)) then fsub b (fmul diff_b_a (fsub (Fin 1) t))
         else fadd a (fmul diff_b_a t))"

definition quantile_skipna :: "cell \<Rightarrow> cell list \<Rightarrow> cell" where
  "quantile_skipna q col =
     (let vs = sort_cells (dropna col); m = length vs
      in if m = 0 then NaN
         else
           case fmul (Fin (real (m - 1))) q of
             Fin pos \<Rightarrow>
               let lo = min (nat \<lfloor>pos\<rfloor>) (m - 1);
                   hi = min (lo + 1) (m - 1)
               in lerp (vs ! lo) (vs ! hi) (fsub (Fin pos) (Fin (real lo)))
           | _ \<Rightarrow> NaN)"

text \<open>
  The mean of the values that are not missing: their sum, added from left to right,
  over their number. (The rolling mean of pandas keeps a compensated running sum, which
  can differ from this sum in the last bits.)
\<close>

definition mean_skipna :: "cell list \<Rightarrow> cell" where
  "mean_skipna col =
     (let vs = dropna col
      in if vs = [] then NaN else fdiv (foldl fadd (Fin 0) vs) (Fin (real (length vs))))"

text \<open>
  \<open>df.median(axis=0)\<close> and \<open>df.quantile(q, axis=0)\<close>: one value per column. pandas hands
  the fraction to \<open>np.percentile\<close> as \<open>q * 100\<close>, which NumPy divides by 100 again.
\<close>

definition median_axis0 :: "('r, 'c) frame \<Rightarrow> 'c series" where
  "median_axis0 df = \<lparr>s_index = columns df, s_values = map median_skipna (data df)\<rparr>"

definition quantile_axis0 :: "cell \<Rightarrow> ('r, 'c) frame \<Rightarrow> 'c series" where
  "quantile_axis0 q df =
     \<lparr>s_index = columns df,
      s_values = map (quantile_skipna (fdiv (fmul q (Fin 100)) (Fin 100))) (data df)\<rparr>"

text \<open>
  \<^verbatim>\<open>pd.DataFrame(np.tile(f0.values, (n, 1)), index=df.index, columns=df.columns)\<close>:
  \<open>n\<close> rows that all repeat the vector, so column \<open>j\<close> is \<open>n\<close> copies of its entry \<open>j\<close>.
\<close>

definition tile_frame :: "'c series \<Rightarrow> nat \<Rightarrow> ('r, 'c) frame \<Rightarrow> ('r, 'c) frame" where
  "tile_frame f0 n df =
     \<lparr>index = index df, columns = columns df, data = map (\<lambda>v. replicate n v) (s_values f0)\<rparr>"

text \<open>\<open>ffill\<close> carries the last value seen forward over missing cells; \<open>bfill\<close> is its mirror.\<close>

fun ffill_from :: "cell \<Rightarrow> cell list \<Rightarrow> cell list" where
  "ffill_from prev [] = []"
| "ffill_from prev (x # xs) =
     (if isna x then prev # ffill_from prev xs else x # ffill_from x xs)"

definition ffill :: "cell list \<Rightarrow> cell list" where
  "ffill xs = ffill_from NaN xs"

definition bfill :: "cell list \<Rightarrow> cell list" where
  "bfill xs = rev (ffill (rev xs))"

text \<open>
  \<open>df.rolling(window=w, center=True, min_periods=minp)\<close>. Infinite values count as
  missing. The window of row \<open>i\<close> covers the positions from \<open>i + 1 + off - w\<close> up to,
  not including, \<open>i + 1 + off\<close>, with \<open>off = (w - 1) // 2\<close>, cut to the table. A window
  with fewer than \<open>minp\<close> values gives NaN. pandas refuses \<open>min_periods > window\<close>.
\<close>

definition window_at :: "int \<Rightarrow> cell list \<Rightarrow> nat \<Rightarrow> cell list" where
  "window_at w col i =
     (let n = int (length col);
          off = (w - 1) div 2;
          e = min n (max 0 (int i + 1 + off));
          s = min n (max 0 (int i + 1 + off - w))
      in py_slice s e (map replace_inf col))"

definition enough :: "int \<Rightarrow> cell list \<Rightarrow> bool" where
  "enough minp win \<longleftrightarrow> int (length (dropna win)) \<ge> minp"

definition rolling_col :: "int \<Rightarrow> int \<Rightarrow> (cell list \<Rightarrow> cell) \<Rightarrow> cell list \<Rightarrow> cell list" where
  "rolling_col w minp stat col =
     map (\<lambda>i. let win = window_at w col i in if enough minp win then stat win else NaN)
       [0..<length col]"

definition rolling_frame ::
  "int \<Rightarrow> int \<Rightarrow> (cell list \<Rightarrow> cell) \<Rightarrow> ('r, 'c) frame \<Rightarrow> error + ('r, 'c) frame" where
  "rolling_frame w minp stat df =
     (if minp > w then Inl (ValueError ''min_periods must be <= window'')
      else Inr (df\<lparr>data := map (rolling_col w minp stat) (data df)\<rparr>))"

text \<open>Whether some window of the table has enough values for the statistic to be called.\<close>

definition rolling_invoked :: "int \<Rightarrow> int \<Rightarrow> ('r, 'c) frame \<Rightarrow> bool" where
  "rolling_invoked w minp df =
     list_ex (\<lambda>col. list_ex (\<lambda>i. enough minp (window_at w col i)) [0..<length col]) (data df)"

section \<open>BaselineComputer (baseline.py)\<close>

text \<open>
  The configuration of a \<open>BaselineComputer\<close>. The three fractions are Python floats: the
  code computes with the float64 nearest to the number given, \<open>round_f64\<close> of the field.
\<close>

record baseline_computer =
  mode :: string
  stim_frame :: "int option"
  pre_window :: int
  rolling_window :: int
  global_percentile_q :: real
  rolling_percentile_q :: real
  roll_min_frac :: real

definition validate_positive :: "int \<Rightarrow> string \<Rightarrow> error + unit" where
  "validate_positive n name =
     (if n < 3 then Inl (ValueError (name @ '' must be >= 3'')) else Inr ())"

definition validate_stim_and_window :: "baseline_computer \<Rightarrow> int \<Rightarrow> error + unit" where
  "validate_stim_and_window self n_rows =
     (case stim_frame self of
        None \<Rightarrow>
          Inl (ValueError ''STIM_FRAME is None; pre-stim baseline requires a stimulus frame.'')
      | Some sf \<Rightarrow>
          if sf \<le> 0 \<or> sf > n_rows
            then Inl (ValueError ''STIM_FRAME out of range after trimming'')
          else validate_positive (pre_window self) ''BASELINE_PRE_WINDOW'')"

text \<open>
  Each strategy returns the baseline table and the representative vector, or the error
  it raised. After the validation the stimulus frame is an integer; \<open>None\<close> in the
  arithmetic would be a TypeError, which the validation makes unreachable.
\<close>

definition baseline_pre_stim_median ::
  "baseline_computer \<Rightarrow> ('r, 'c) frame \<Rightarrow> error + (('r, 'c) frame \<times> 'c series)" where
  "baseline_pre_stim_median self df =
     (let n = length (index df)
      in case validate_stim_and_window self (int n) of
           Inl e \<Rightarrow> Inl e
         | Inr _ \<Rightarrow>
             (case stim_frame self of
                None \<Rightarrow> Inl TypeError
              | Some sf \<Rightarrow>
                  let start = max 0 (sf - pre_window self);
                      prestim = iloc_rows start sf df;
                      f0 = median_axis0 prestim;
                      F0_df = tile_frame f0 n df
                  in Inr (F0_df, f0)))"

definition baseline_global_median ::
  "baseline_computer \<Rightarrow> ('r, 'c) frame \<Rightarrow> error + (('r, 'c) frame \<times> 'c series)" where
  "baseline_global_median self df =
     (let f0 = median_axis0 df;
          F0_df = tile_frame f0 (length (index df)) df
      in Inr (F0_df, f0))"

definition baseline_global_percentile ::
  "baseline_computer \<Rightarrow> ('r, 'c) frame \<Rightarrow> error + (('r, 'c) frame \<times> 'c series)" where
  "baseline_global_percentile self df =
     (let q = round_f64 (global_percentile_q self)
      in if \<not> (cell_ge q (Fin 0) \<and> cell_ge (Fin 100) q)
           then Inl (ValueError ''GLOBAL_PERCENTILE_Q must be in [0,100]'')
         else
           let f0 = quantile_axis0 (fdiv q (Fin 100)) df;
               F0_df = tile_frame f0 (length (index df)) df
           in Inr (F0_df, f0))"

text \<open>
  \<^verbatim>\<open>minp = max(3, int(np.ceil(window * self.roll_min_frac)))\<close>: the window is converted to
  a float (OverflowError when it is too large), the product is a float64 product, and
  \<open>int\<close> refuses an infinite value with OverflowError.
\<close>

definition min_periods :: "baseline_computer \<Rightarrow> int \<Rightarrow> error + int" where
  "min_periods self window =
     (case round_f64 (real_of_int window) of
        Fin w \<Rightarrow>
          (case fmul (Fin w) (round_f64 (roll_min_frac self)) of
             Fin p \<Rightarrow> Inr (max 3 \<lceil>p\<rceil>)
           | NaN \<Rightarrow> Inl (ValueError ''cannot convert float NaN to integer'')
           | _ \<Rightarrow> Inl OverflowError)
      | _ \<Rightarrow> Inl OverflowError)"

definition bfill_ffill :: "('r, 'c) frame \<Rightarrow> ('r, 'c) frame" where
  "bfill_ffill df = df\<lparr>data := map (\<lambda>col. ffill (bfill col)) (data df)\<rparr>"

text \<open>
  \<open>_rolling_apply_quantile\<close>: the statistic is \<^verbatim>\<open>np.nanquantile(window, q/100.0)\<close>, which
  raises ValueError for a fraction outside \<open>[0, 1]\<close> when it is first called.
\<close>

definition rolling_apply_quantile ::
  "baseline_computer \<Rightarrow> ('r, 'c) frame \<Rightarrow> int \<Rightarrow> real \<Rightarrow> error + ('r, 'c) frame" where
  "rolling_apply_quantile self df window q =
     (case validate_positive window ''ROLLING_WINDOW'' of
        Inl e \<Rightarrow> Inl e
      | Inr _ \<Rightarrow>
          (case min_periods self window of
             Inl e \<Rightarrow> Inl e
           | Inr minp \<Rightarrow>
               let frac = fdiv (round_f64 q) (Fin 100)
               in case rolling_frame window minp (quantile_skipna frac) df of
                    Inl e \<Rightarrow> Inl e
                  | Inr base \<Rightarrow>
                      if rolling_invoked window minp df
                           \<and> \<not> (cell_ge frac (Fin 0) \<and> cell_ge (Fin 1) frac)
                        then Inl (ValueError ''Quantiles must be in the range [0, 1]'')
                      else Inr (bfill_ffill base)))"

definition baseline_rolling_median ::
  "baseline_computer \<Rightarrow> ('r, 'c) frame \<Rightarrow> error + (('r, 'c) frame \<times> 'c series)" where
  "baseline_rolling_median self df =
     (case validate_positive (rolling_window self) ''ROLLING_WINDOW'' of
        Inl e \<Rightarrow> Inl e
      | Inr _ \<Rightarrow>
          (case min_periods self (rolling_window self) of
             Inl e \<Rightarrow> Inl e
           | Inr minp \<Rightarrow>
               (case rolling_frame (rolling_window self) minp median_skipna df of
                  Inl e \<Rightarrow> Inl e
                | Inr base \<Rightarrow>
                    let base = bfill_ffill base;
                        f0_repr = median_axis0 base
                    in Inr (base, f0_repr))))"

definition baseline_rolling_percentile ::
  "baseline_computer \<Rightarrow> ('r, 'c) frame \<Rightarrow> error + (('r, 'c) frame \<times> 'c series)" where
  "baseline_rolling_percentile self df =
     (case rolling_apply_quantile self df (rolling_window self) (rolling_percentile_q self) of
        Inl e \<Rightarrow> Inl e
      | Inr base \<Rightarrow> Inr (base, median_axis0 base))"

definition baseline_rolling_mean ::
  "baseline_computer \<Rightarrow> ('r, 'c) frame \<Rightarrow> error + (('r, 'c) frame \<times> 'c series)" where
  "baseline_rolling_mean self df =
     (case validate_positive (rolling_window self) ''ROLLING_WINDOW'' of
        Inl e \<Rightarrow> Inl e
      | Inr _ \<Rightarrow>
          (case min_periods self (rolling_window self) of
             Inl e \<Rightarrow> Inl e
           | Inr minp \<Rightarrow>
               (case rolling_frame (rolling_window self) minp mean_skipna df of
                  Inl e \<Rightarrow> Inl e
                | Inr base \<Rightarrow>
                    let base = bfill_ffill base;
                        f0_repr = median_axis0 base
                    in Inr (base, f0_repr))))"

definition compute ::
  "baseline_computer \<Rightarrow> ('r, 'c) frame \<Rightarrow> error + (('r, 'c) frame \<times> 'c series)" where
  "compute self df =
     (if mode self = ''pre_stim_median'' then baseline_pre_stim_median self df
      else if mode self = ''global_median'' then baseline_global_median self df
      else if mode self = ''global_percentile'' then baseline_global_percentile self df
      else if mode self = ''rolling_median'' then baseline_rolling_median self df
      else if mode self = ''rolling_percentile'' then baseline_rolling_percentile self df
      else if mode self = ''rolling_mean'' then baseline_rolling_mean self df
      else Inl (ValueError ''Unknown baseline mode''))"

section \<open>Gaussian smoothing (filters.py, NumPy and SciPy)\<close>

text \<open>
  The normalised Gaussian kernel of a radius: \<^verbatim>\<open>exp(-0.5 * (kx / sigma) ** 2)\<close> for
  \<open>kx = -radius, ..., radius\<close>, divided by its sum. Both implementations build it so.
  IEEE-754 does not fix the last bits of \<open>exp\<close>, so the weights and the sums of products
  of the Gaussian filter are the exact ones.
\<close>

definition gaussian_kernel :: "real \<Rightarrow> nat \<Rightarrow> real list" where
  "gaussian_kernel sigma radius =
     (let kx = map real_of_int [- int radius ..int radius];
          kernel = map (\<lambda>x. exp (- (1 / 2) * (x / sigma) ^ 2)) kx;
          total = sum_list kernel
      in map (\<lambda>w. w / total) kernel)"

text \<open>
  How a sequence is continued beyond its ends. The names are NumPy's: \<open>Edge\<close> repeats the
  end value (\<open>a a | a b c d | d d\<close>), \<open>Reflect\<close> mirrors without repeating it
  (\<open>c b | a b c d | c b\<close>), \<open>Symmetric\<close> mirrors and repeats it (\<open>b a | a b c d | d c\<close>),
  \<open>Wrap\<close> is periodic (\<open>c d | a b c d | a b\<close>), \<open>Constant\<close> pads with 0. \<open>ext_index\<close>
  is the position, inside a sequence of \<open>n \<ge> 1\<close> values, of what stands at position
  \<open>k\<close> of the continued sequence.
\<close>

datatype boundary = Edge | Reflect | Symmetric | Wrap | Constant

fun ext_index :: "boundary \<Rightarrow> int \<Rightarrow> int \<Rightarrow> int" where
  "ext_index Edge n k = (if k < 0 then 0 else if k \<ge> n then n - 1 else k)"
| "ext_index Reflect n k =
     (if n = 1 then 0
      else let p = 2 * (n - 1); m = k mod p in if m < n then m else p - m)"
| "ext_index Symmetric n k =
     (let p = 2 * n; m = k mod p in if m < n then m else p - 1 - m)"
| "ext_index Wrap n k = k mod n"
| "ext_index Constant n k = k"

definition ext_cell :: "boundary \<Rightarrow> cell list \<Rightarrow> int \<Rightarrow> cell" where
  "ext_cell b a k =
     (let n = int (length a)
      in if 0 \<le> k \<and> k < n then a ! nat k
         else if b = Constant then Fin 0
         else a ! nat (ext_index b n k))"

text \<open>\<^verbatim>\<open>np.pad(a, (radius, radius), mode=pad_mode)\<close> on a sequence that is not empty.\<close>

definition np_pad :: "cell list \<Rightarrow> nat \<Rightarrow> boundary \<Rightarrow> cell list" where
  "np_pad a radius pad_mode =
     map (\<lambda>k. ext_cell pad_mode a (int k - int radius)) [0..<length a + 2 * radius]"

definition dot :: "cell list \<Rightarrow> cell list \<Rightarrow> cell" where
  "dot xs ys = foldl cell_add (Fin 0) (map2 cell_mul xs ys)"

text \<open>
  \<^verbatim>\<open>np.convolve(a, v, mode="valid")\<close>: the longer sequence slides over the reversed
  shorter one, and only complete overlaps are kept.
\<close>

definition convolve_core :: "cell list \<Rightarrow> cell list \<Rightarrow> cell list" where
  "convolve_core a v =
     map (\<lambda>i. dot (take (length v) (drop i a)) (rev v)) [0..<length a - length v + 1]"

definition np_convolve_valid :: "cell list \<Rightarrow> cell list \<Rightarrow> cell list" where
  "np_convolve_valid a v = (if length a < length v then convolve_core v a else convolve_core a v)"

text \<open>
  \<open>_gaussian_numpy\<close>. \<open>np.pad\<close> refuses to extend an empty axis, so a table with columns
  but without rows raises ValueError there.
\<close>

definition gaussian_numpy :: "filter_applier \<Rightarrow> ('r, 'c) frame \<Rightarrow> error + ('r, 'c) frame" where
  "gaussian_numpy self df =
     (let sigma = gaussian_sigma self
      in if sigma \<le> 0 then Inr df
         else
           let radius = nat (max 1 (py_round (3 * sigma)));
               kernel = gaussian_kernel sigma radius;
               bmode = gauss_boundary self;
               pad_mode = (if bmode = ''nearest'' then Edge
                           else if bmode = ''reflect'' \<or> bmode = ''mirror'' then Reflect
                           else Wrap)
           in if index df = [] \<and> columns df \<noteq> []
                then Inl (ValueError ''cannot extend empty axis'')
              else Inr (df\<lparr>data :=
                     map (\<lambda>a. let a_pad = np_pad a radius pad_mode
                               in np_convolve_valid a_pad (map Fin kernel))
                       (data df)\<rparr>))"

text \<open>
  \<open>scipy.ndimage.gaussian_filter1d(arr, sigma, axis=0, mode=mode)\<close>, for \<open>sigma > 0\<close>, with
  its defaults \<open>order = 0\<close>, \<open>cval = 0.0\<close> and \<open>truncate = 4.0\<close>: the radius is
  \<^verbatim>\<open>int(truncate * sigma + 0.5)\<close>, the weights are the normalised Gaussian kernel reversed,
  and every column is correlated with them, the sequence being continued as \<open>mode\<close>
  says. SciPy's \<open>reflect\<close> is NumPy's \<open>symmetric\<close>, its \<open>mirror\<close> is NumPy's \<open>reflect\<close>,
  its \<open>nearest\<close> is NumPy's \<open>edge\<close>. Another mode name is refused.
\<close>

definition scipy_mode :: "string \<Rightarrow> boundary option" where
  "scipy_mode name =
     (if name = ''reflect'' then Some Symmetric
      else if name = ''mirror'' then Some Reflect
      else if name = ''nearest'' then Some Edge
      else if name = ''wrap'' then Some Wrap
      else if name = ''constant'' then Some Constant
      else None)"

definition correlate1d :: "cell list \<Rightarrow> cell list \<Rightarrow> boundary \<Rightarrow> cell list" where
  "correlate1d a weights b =
     (let lw = length weights div 2
      in map (\<lambda>i. dot (map (\<lambda>k. ext_cell b a (int i + int k - int lw)) [0..<length weights])
                     weights)
           [0..<length a])"

definition gaussian_filter1d :: "cell list \<Rightarrow> real \<Rightarrow> boundary \<Rightarrow> cell list" where
  "gaussian_filter1d a sigma b =
     (let lw = nat \<lfloor>4 * sigma + 1 / 2\<rfloor>;
          weights = rev (gaussian_kernel sigma lw)
      in correlate1d a (map Fin weights) b)"

definition gaussian_ndimage :: "filter_applier \<Rightarrow> ('r, 'c) frame \<Rightarrow> error + ('r, 'c) frame" where
  "gaussian_ndimage self df =
     (case scipy_mode (gauss_boundary self) of
        None \<Rightarrow> Inl RuntimeError
      | Some b \<Rightarrow>
          Inr (df\<lparr>data := map (\<lambda>a. gaussian_filter1d a (gaussian_sigma self) b) (data df)\<rparr>))"

text \<open>\<open>_apply_gaussian\<close>; \<open>HAVE_SCIPY_GAUSS\<close> is the module's flag.\<close>

definition apply_gaussian ::
  "bool \<Rightarrow> filter_applier \<Rightarrow> ('r, 'c) frame \<Rightarrow> error + ('r, 'c) frame" where
  "apply_gaussian HAVE_SCIPY_GAUSS self df =
     (if gaussian_sigma self \<le> 0 then Inr df
      else if HAVE_SCIPY_GAUSS then gaussian_ndimage self df
      else gaussian_numpy self df)"

section \<open>FilterApplier.apply (filters.py)\<close>

text \<open>
  \<open>_restore_nans\<close>: \<^verbatim>\<open>filtered.where(~nan_mask, np.nan)\<close>. The mask has the labels of the
  filtered table, so the two meet cell by cell.
\<close>

definition restore_nans :: "('r, 'c) frame \<Rightarrow> bool list list \<Rightarrow> ('r, 'c) frame" where
  "restore_nans filtered nan_mask =
     filtered\<lparr>data := map2 (map2 (\<lambda>v m. if \<not> m then v else NaN)) (data filtered) nan_mask\<rparr>"

definition empty_frame :: "('r, 'c) frame \<Rightarrow> bool" where
  "empty_frame df \<longleftrightarrow> index df = [] \<or> columns df = []"

text \<open>
  \<open>FilterApplier._to_float_df\<close> converts the columns that are not floats; the cells of
  the model are floats already.
\<close>

definition FilterApplier_to_float_df :: "('r, 'c) frame \<Rightarrow> ('r, 'c) frame" where
  "FilterApplier_to_float_df df = df"

text \<open>
  \<open>apply\<close>. A column that is not all missing is filled backward then forward before the
  filter runs; the others are left as they are.
\<close>

definition FilterApplier_apply ::
  "(cell list \<Rightarrow> int \<Rightarrow> int \<Rightarrow> cell list) \<Rightarrow> bool \<Rightarrow> bool \<Rightarrow> filter_applier
     \<Rightarrow> ('r, 'c) frame \<Rightarrow> error + ('r, 'c) frame" where
  "FilterApplier_apply savgol_filter HAVE_SCIPY_SG HAVE_SCIPY_GAUSS self df =
     (if empty_frame df then Inr df
      else
        let df = FilterApplier_to_float_df df;
            nan_mask = map (map isna) (data df);
            df_filled = df\<lparr>data := map (\<lambda>col. if \<not> list_all isna col then ffill (bfill col)
                                              else col) (data df)\<rparr>;
            filtered =
              (if filter_method self = ''gaussian'' then apply_gaussian HAVE_SCIPY_GAUSS self df_filled
               else if filter_method self = ''savgol''
                 then apply_savgol savgol_filter HAVE_SCIPY_SG self df_filled
               else Inl (ValueError ''FILTER_METHOD must be gaussian or savgol''))
        in case filtered of
             Inl e \<Rightarrow> Inl e
           | Inr filtered \<Rightarrow> Inr (restore_nans filtered nan_mask))"


section \<open>Rounding to float64: error and overflow\<close>

lemma pow2_powr: "pow2 k = 2 powr (real_of_int k)"
proof (cases "k \<ge> 0")
  case True
  then show ?thesis by (simp add: pow2_def powr_realpow [symmetric])
next
  case False
  then have r: "real (nat (- k)) = - real_of_int k" by simp
  have "(2::real) ^ nat (- k) = 2 powr (real (nat (- k)))"
    by (simp add: powr_realpow)
  then have "(2::real) ^ nat (- k) = 2 powr (- real_of_int k)" using r by simp
  then have "1 / (2::real) ^ nat (- k) = 2 powr (real_of_int k)"
    by (simp add: powr_minus_divide)
  then show ?thesis using False by (simp add: pow2_def)
qed

lemma pow2_pos [simp]: "0 < pow2 k"
  by (simp add: pow2_powr)

lemma pow2_add: "pow2 (a + b) = pow2 a * pow2 b"
  by (simp add: pow2_powr powr_add)

lemma pow2_mono: "a \<le> b \<Longrightarrow> pow2 a \<le> pow2 b"
  by (simp add: pow2_powr)

lemma pow2_less_iff: "pow2 a < pow2 b \<longleftrightarrow> a < b"
  by (simp add: pow2_powr)

lemma pow2_nat: "pow2 (int n) = 2 ^ n"
  by (simp add: pow2_def)

lemma py_round_error: "\<bar>real_of_int (py_round y) - y\<bar> \<le> 1 / 2"
  by (auto simp: py_round_def Let_def)

lemma py_round_of_int [simp]: "py_round (real_of_int z) = z"
  by (simp add: py_round_def)

lemma py_round_ge:
  assumes "real_of_int n \<le> y"
  shows "n \<le> py_round y"
proof -
  have "n \<le> \<lfloor>y\<rfloor>" using assms by (simp add: le_floor_iff)
  then show ?thesis by (auto simp: py_round_def Let_def)
qed

lemma py_round_le:
  assumes "y \<le> real_of_int n"
  shows "py_round y \<le> n"
proof (cases "y = real_of_int n")
  case True
  then show ?thesis by simp
next
  case False
  then have "\<lfloor>y\<rfloor> < n" using assms by (simp add: floor_less_iff)
  then show ?thesis by (auto simp: py_round_def Let_def)
qed

lemma float_exp_bounds:
  assumes "x \<noteq> 0"
  shows "pow2 (float_exp x) \<le> \<bar>x\<bar> \<and> \<bar>x\<bar> < pow2 (float_exp x + 1)"
proof (cases "\<bar>x\<bar> \<ge> 1")
  case True
  define n where "n = \<lfloor>\<bar>x\<bar>\<rfloor>"
  have n1: "1 \<le> n" using True by (simp add: n_def le_floor_iff)
  then have n0: "0 < n" by simp
  have e: "float_exp x = bitlen n - 1" using True by (simp add: float_exp_def n_def)
  have b1: "1 \<le> bitlen n" using n0 by (simp add: bitlen_alt_def)
  have bb: "2 ^ nat (bitlen n - 1) \<le> n" "n < 2 ^ nat (bitlen n)"
    using bitlen_bounds[OF n0] by simp_all
  have lo: "pow2 (bitlen n - 1) \<le> \<bar>x\<bar>"
  proof -
    have "pow2 (bitlen n - 1) = real_of_int (2 ^ nat (bitlen n - 1))"
      using b1 by (simp add: pow2_def)
    also have "\<dots> \<le> real_of_int n" using bb(1) by linarith
    also have "\<dots> \<le> \<bar>x\<bar>" by (simp add: n_def)
    finally show ?thesis .
  qed
  have hi: "\<bar>x\<bar> < pow2 (bitlen n)"
  proof -
    have "n + 1 \<le> 2 ^ nat (bitlen n)" using bb(2) by simp
    then have "real_of_int (n + 1) \<le> real_of_int (2 ^ nat (bitlen n))" by linarith
    moreover have "\<bar>x\<bar> < real_of_int (n + 1)" by (simp add: n_def)
    moreover have "pow2 (bitlen n) = real_of_int (2 ^ nat (bitlen n))"
      using b1 by (simp add: pow2_def)
    ultimately show ?thesis by linarith
  qed
  show ?thesis using lo hi e by simp
next
  case False
  define a where "a = \<bar>x\<bar>"
  have a: "0 < a" "a < 1" using assms False by (simp_all add: a_def)
  define m where "m = \<lceil>1 / a\<rceil>"
  have inv: "1 < 1 / a" using a by simp
  have m2: "2 \<le> m" using inv by (simp add: m_def le_ceiling_iff)
  have mge: "1 / a \<le> real_of_int m" by (simp add: m_def)
  have mlt: "real_of_int (m - 1) < 1 / a"
    unfolding m_def by linarith
  define k where "k = bitlen (m - 1)"
  have m0: "0 < m - 1" using m2 by simp
  have k1: "1 \<le> k" using m0 by (simp add: k_def bitlen_alt_def)
  have bb: "2 ^ nat (k - 1) \<le> m - 1" "m - 1 < 2 ^ nat k"
    using bitlen_bounds[OF m0] by (simp_all add: k_def)
  have e: "float_exp x = - k" using False by (simp add: float_exp_def k_def m_def a_def)
  have lo: "pow2 (- k) \<le> a"
  proof -
    have "m \<le> 2 ^ nat k" using bb(2) by simp
    then have "real_of_int m \<le> 2 ^ nat k" by (metis of_int_le_iff of_int_numeral of_int_power)
    then have "1 / a \<le> 2 ^ nat k" using mge by linarith
    then have "1 \<le> 2 ^ nat k * a" using a(1) by (simp add: field_simps)
    then have "1 / 2 ^ nat k \<le> a" by (simp add: field_simps)
    then show ?thesis using k1 by (simp add: pow2_def)
  qed
  have hi: "a < pow2 (- k + 1)"
  proof -
    have "real_of_int (2 ^ nat (k - 1)) \<le> real_of_int (m - 1)" using bb(1) by linarith
    then have "2 ^ nat (k - 1) < 1 / a" using mlt by simp
    then have "2 ^ nat (k - 1) * a < 1" using a(1) by (simp add: field_simps)
    then have "a < 1 / 2 ^ nat (k - 1)" by (simp add: field_simps)
    moreover have "pow2 (- k + 1) = 1 / 2 ^ nat (k - 1)"
    proof (cases "k = 1")
      case True
      then show ?thesis by (simp add: pow2_def)
    next
      case False
      then have "- k + 1 < 0" using k1 by simp
      moreover have "nat (- (- k + 1)) = nat (k - 1)" by simp
      ultimately show ?thesis by (simp add: pow2_def)
    qed
    ultimately show ?thesis by simp
  qed
  show ?thesis using lo hi e by (simp add: a_def)
qed

lemma ulp_pos [simp]: "0 < ulp_of x"
  by (simp add: ulp_of_def)

lemma ulp_nonzero [simp]: "ulp_of x \<noteq> 0"
  using ulp_pos[of x] by linarith

lemma ulp_abs [simp]: "\<bar>ulp_of x\<bar> = ulp_of x"
  using ulp_pos[of x] by linarith

lemma py_round_zero [simp]: "py_round 0 = 0"
  using py_round_of_int[of 0] by simp

lemma f64_nearest_error: "\<bar>f64_nearest x - x\<bar> \<le> ulp_of x / 2"
proof -
  let ?u = "ulp_of x"
  have "\<bar>real_of_int (py_round (x / ?u)) - x / ?u\<bar> \<le> 1 / 2" by (rule py_round_error)
  then have "?u * \<bar>real_of_int (py_round (x / ?u)) - x / ?u\<bar> \<le> ?u * (1 / 2)"
    by (intro mult_left_mono) (simp_all add: less_imp_le)
  moreover have "?u * \<bar>real_of_int (py_round (x / ?u)) - x / ?u\<bar> = \<bar>f64_nearest x - x\<bar>"
  proof -
    have "\<bar>?u\<bar> = ?u" using ulp_pos[of x] by linarith
    then have "?u * \<bar>real_of_int (py_round (x / ?u)) - x / ?u\<bar>
        = \<bar>?u * (real_of_int (py_round (x / ?u)) - x / ?u)\<bar>"
      by (simp add: abs_mult)
    also have "\<dots> = \<bar>f64_nearest x - x\<bar>"
      by (simp add: f64_nearest_def right_diff_distrib)
    finally show ?thesis .
  qed
  ultimately show ?thesis by simp
qed

lemma ulp_half_bound:
  assumes "x \<noteq> 0"
  shows "ulp_of x / 2 \<le> \<bar>x\<bar> / 2 ^ 53 + 1 / 2 ^ 1075"
proof (cases "float_exp x \<ge> - 1022")
  case True
  then have "ulp_of x = pow2 (float_exp x + (- 52))" by (simp add: ulp_of_def max_def)
  also have "\<dots> = pow2 (float_exp x) * pow2 (- 52)" by (rule pow2_add)
  finally have u: "ulp_of x = pow2 (float_exp x) / 2 ^ 52" by (simp add: pow2_def)
  have "pow2 (float_exp x) \<le> \<bar>x\<bar>" using float_exp_bounds[OF assms] by simp
  then have "ulp_of x / 2 \<le> \<bar>x\<bar> / 2 ^ 53" unfolding u by (simp add: field_simps)
  moreover have "(0::real) \<le> 1 / 2 ^ 1075" by simp
  ultimately show ?thesis by linarith
next
  case False
  then have "ulp_of x = pow2 (- 1074)" by (simp add: ulp_of_def max_def)
  then have "ulp_of x / 2 = 1 / 2 ^ 1075" by (simp add: pow2_def)
  moreover have "0 \<le> \<bar>x\<bar> / 2 ^ 53" by simp
  ultimately show ?thesis by linarith
qed

lemma f64_nearest_bound:
  assumes "x \<noteq> 0"
  shows "\<bar>f64_nearest x - x\<bar> \<le> \<bar>x\<bar> / 2 ^ 53 + 1 / 2 ^ 1075"
  using f64_nearest_error[of x] ulp_half_bound[OF assms] by linarith


text \<open>Rounding a value of moderate size gives a finite float; a huge one overflows.\<close>

lemma f64_nearest_abs:
  assumes "x \<noteq> 0"
  shows "\<bar>f64_nearest x\<bar> \<le> \<bar>x\<bar> + \<bar>x\<bar> / 2 ^ 53 + 1 / 2 ^ 1075"
  using f64_nearest_bound[OF assms] by linarith

lemma round_f64_finite:
  assumes "\<bar>x\<bar> \<le> 2 ^ 1023"
  shows "round_f64 x = Fin (f64_nearest x)"
proof (cases "x = 0")
  case True
  then show ?thesis by (simp add: round_f64_def f64_nearest_def)
next
  case False
  have "\<bar>x\<bar> / 2 ^ 53 \<le> 2 ^ 1023 / 2 ^ 53" using assms by (simp add: divide_right_mono)
  then have "\<bar>f64_nearest x\<bar> \<le> 2 ^ 1023 + 2 ^ 1023 / 2 ^ 53 + 1 / 2 ^ 1075"
    using f64_nearest_abs[OF False] assms by linarith
  also have "\<dots> < (2::real) ^ 1024" by simp
  finally have "\<bar>f64_nearest x\<bar> < pow2 1024" by (simp add: pow2_def)
  then show ?thesis using False by (simp add: round_f64_def Let_def)
qed

lemma round_f64_error:
  assumes "\<bar>x\<bar> \<le> 2 ^ 1023"
  shows "\<exists>r. round_f64 x = Fin r \<and> \<bar>r - x\<bar> \<le> \<bar>x\<bar> / 2 ^ 53 + 1 / 2 ^ 1075"
proof (cases "x = 0")
  case True
  then show ?thesis by (simp add: round_f64_def)
next
  case False
  then show ?thesis using round_f64_finite[OF assms] f64_nearest_bound[OF False] by simp
qed

lemma f64_nearest_large:
  assumes "pow2 1024 \<le> \<bar>x\<bar>"
  shows "pow2 1024 \<le> \<bar>f64_nearest x\<bar>"
proof -
  have x0: "x \<noteq> 0"
  proof
    assume "x = 0"
    then have "pow2 1024 \<le> 0" using assms by simp
    then show False using pow2_pos[of 1024] by linarith
  qed
  define e where "e = float_exp x"
  have b: "pow2 e \<le> \<bar>x\<bar>" "\<bar>x\<bar> < pow2 (e + 1)"
    using float_exp_bounds[OF x0] by (simp_all add: e_def)
  have "pow2 1024 < pow2 (e + 1)" using assms b(2) by linarith
  then have e1024: "1024 \<le> e" by (simp add: pow2_less_iff)
  then have u: "ulp_of x = pow2 (e + (- 52))" by (simp add: ulp_of_def e_def max_def)
  have pe: "pow2 e = ulp_of x * 2 ^ 52"
  proof -
    have "pow2 e = pow2 ((e + (- 52)) + 52)" by simp
    also have "\<dots> = pow2 (e + (- 52)) * pow2 52" by (rule pow2_add)
    finally show ?thesis by (simp add: u pow2_def)
  qed
  define q where "q = py_round (\<bar>x\<bar> / ulp_of x)"
  have "real_of_int (2 ^ 52) \<le> \<bar>x\<bar> / ulp_of x"
    using b(1) pe ulp_pos[of x] by (simp add: field_simps)
  then have q52: "2 ^ 52 \<le> q" unfolding q_def by (rule py_round_ge)
  have sym: "py_round (- y) = - py_round y" for y
  proof -
    have "\<lfloor>- y\<rfloor> = - \<lceil>y\<rceil>" by (simp add: ceiling_def)
    then show ?thesis
      by (cases "y \<in> \<int>") (auto simp: py_round_def Let_def ceiling_altdef elim!: Ints_cases)
  qed
  have "\<bar>real_of_int (py_round (x / ulp_of x))\<bar> = real_of_int q"
  proof (cases "0 \<le> x")
    case True
    then have "\<bar>x\<bar> = x" by simp
    moreover have "0 \<le> q" using q52 by (smt (verit) zero_le_power)
    ultimately show ?thesis by (simp add: q_def)
  next
    case False
    then have "x / ulp_of x = - (\<bar>x\<bar> / ulp_of x)" by simp
    then have "py_round (x / ulp_of x) = - q" unfolding q_def using sym by metis
    moreover have "0 \<le> q" using q52 by (smt (verit) zero_le_power)
    ultimately show ?thesis by simp
  qed
  then have "\<bar>f64_nearest x\<bar> = ulp_of x * real_of_int q"
    using ulp_pos[of x] by (simp add: f64_nearest_def abs_mult)
  moreover have "ulp_of x * real_of_int (2 ^ 52) \<le> ulp_of x * real_of_int q"
    using q52 ulp_pos[of x] by (intro mult_left_mono) (simp_all add: less_imp_le)
  ultimately have "pow2 e \<le> \<bar>f64_nearest x\<bar>" using pe by simp
  moreover have "pow2 1024 \<le> pow2 e" using e1024 by (rule pow2_mono)
  ultimately show ?thesis by linarith
qed

lemma round_f64_overflow:
  "pow2 1024 \<le> x \<Longrightarrow> round_f64 x = PInf"
  "x \<le> - pow2 1024 \<Longrightarrow> round_f64 x = NInf"
proof -
  assume a: "pow2 1024 \<le> x"
  then have "0 < x" using pow2_pos[of 1024] by linarith
  moreover have "pow2 1024 \<le> \<bar>f64_nearest x\<bar>" using a by (intro f64_nearest_large) simp
  ultimately show "round_f64 x = PInf" by (simp add: round_f64_def Let_def)
next
  assume a: "x \<le> - pow2 1024"
  then have "x < 0" using pow2_pos[of 1024] by linarith
  moreover have "pow2 1024 \<le> \<bar>f64_nearest x\<bar>" using a by (intro f64_nearest_large) simp
  ultimately show "round_f64 x = NInf" by (simp add: round_f64_def Let_def)
qed

text \<open>A number with a significand of at most 53 bits in the range of float64 is a float64.\<close>

lemma f64_nearest_zero [simp]: "f64_nearest 0 = 0"
  by (simp add: f64_nearest_def)

lemma f64_nearest_exact:
  assumes x: "x = real_of_int m * pow2 k" and m: "\<bar>m\<bar> < 2 ^ 53" and k: "- 1074 \<le> k"
  shows "f64_nearest x = x"
proof (cases "x = 0")
  case True
  then show ?thesis by simp
next
  case False
  define e where "e = float_exp x"
  have b: "pow2 e \<le> \<bar>x\<bar>" using float_exp_bounds [OF False] by (simp add: e_def)
  have ax: "\<bar>x\<bar> = real_of_int \<bar>m\<bar> * pow2 k"
    unfolding x by (simp add: abs_mult abs_of_pos)
  have "real_of_int \<bar>m\<bar> < real_of_int (2 ^ 53)" using m by (simp only: of_int_less_iff)
  then have m': "real_of_int \<bar>m\<bar> < 2 ^ 53" by simp
  have "\<bar>x\<bar> < 2 ^ 53 * pow2 k"
    unfolding ax using m' by (simp add: mult_strict_right_mono)
  also have "\<dots> = pow2 (53 + k)"
  proof -
    have "pow2 53 = 2 ^ 53" by (simp add: pow2_def)
    then show ?thesis unfolding pow2_add by simp
  qed
  finally have "pow2 e < pow2 (53 + k)" using b by linarith
  then have ek: "e < 53 + k" by (simp add: pow2_less_iff)
  define j where "j = max e (- 1022) - 52"
  have jk: "j \<le> k" using ek k by (simp add: j_def)
  have ulp: "ulp_of x = pow2 j" by (simp add: ulp_of_def j_def e_def)
  have pk: "pow2 k = pow2 (k - j) * pow2 j"
    using pow2_add [of "k - j" j] by simp
  have pkj: "pow2 (k - j) = real_of_int (2 ^ nat (k - j))"
    using jk by (simp add: pow2_def)
  have nz: "pow2 j \<noteq> 0" using pow2_pos [of j] by linarith
  have q: "x / pow2 j = real_of_int (m * 2 ^ nat (k - j))"
    unfolding x pk pkj using nz by simp
  have "f64_nearest x = pow2 j * real_of_int (m * 2 ^ nat (k - j))"
    unfolding f64_nearest_def ulp q py_round_of_int ..
  also have "\<dots> = x" using q nz by (simp add: field_simps)
  finally show ?thesis .
qed

lemma round_f64_exact:
  assumes x: "x = real_of_int m * pow2 k" and m: "\<bar>m\<bar> < 2 ^ 53" and k: "- 1074 \<le> k"
    and r: "\<bar>x\<bar> < pow2 1024"
  shows "round_f64 x = Fin x"
  using f64_nearest_exact [OF x m k] r by (simp add: round_f64_def Let_def)

lemma round_f64_int:
  assumes "\<bar>n\<bar> < 2 ^ 53"
  shows "round_f64 (real_of_int n) = Fin (real_of_int n)"
proof (rule round_f64_exact [of _ n 0])
  show "real_of_int n = real_of_int n * pow2 0" by (simp add: pow2_def)
  show "\<bar>n\<bar> < 2 ^ 53" by fact
  show "- 1074 \<le> (0::int)" by simp
  have "\<bar>real_of_int n\<bar> = real_of_int \<bar>n\<bar>" by simp
  also have "\<dots> < real_of_int (2 ^ 53)" using assms by (simp only: of_int_less_iff)
  also have "\<dots> \<le> pow2 1024" by (simp add: pow2_def)
  finally show "\<bar>real_of_int n\<bar> < pow2 1024" .
qed

text \<open>The float64 operations on finite values, and values that need no rounding.\<close>

lemma fsub_Fin [simp]: "fsub (Fin a) (Fin b) = round_f64 (a - b)"
  by (simp add: fsub_def cell_sub_def)

lemma fadd_Fin [simp]: "fadd (Fin a) (Fin b) = round_f64 (a + b)"
  by (simp add: fadd_def)

lemma fmul_Fin [simp]: "fmul (Fin a) (Fin b) = round_f64 (a * b)"
  by (simp add: fmul_def)

lemma fdiv_Fin [simp]: "b \<noteq> 0 \<Longrightarrow> fdiv (Fin a) (Fin b) = round_f64 (a / b)"
  by (simp add: fdiv_def)

lemma fsub_NaN [simp]: "fsub NaN b = NaN" "fsub a NaN = NaN"
  by (cases b; simp add: fsub_def cell_sub_def) (cases a; simp add: fsub_def cell_sub_def)

lemma fadd_NaN [simp]: "fadd NaN b = NaN" "fadd a NaN = NaN"
  by (cases b; simp add: fadd_def) (cases a; simp add: fadd_def)

lemma fdiv_NaN [simp]: "fdiv NaN b = NaN" "fdiv a NaN = NaN"
  by (cases b; simp add: fdiv_def) (cases a; simp add: fdiv_def)

lemma round_f64_zero [simp]: "round_f64 0 = Fin 0"
  by (simp add: round_f64_def)

lemma round_f64_numeral:
  "\<bar>numeral n :: int\<bar> < 2 ^ 53 \<Longrightarrow> round_f64 (numeral n) = Fin (numeral n)"
  using round_f64_int [of "numeral n"] by simp

lemma round_f64_neg_numeral:
  "\<bar>numeral n :: int\<bar> < 2 ^ 53 \<Longrightarrow> round_f64 (- numeral n) = Fin (- numeral n)"
  using round_f64_int [of "- numeral n"] by simp

lemma round_f64_one [simp]: "round_f64 1 = Fin 1"
  using round_f64_int [of 1] by simp

lemma round_f64_half:
  assumes "\<bar>m\<bar> < 2 ^ 53"
  shows "round_f64 (real_of_int m / 2) = Fin (real_of_int m / 2)"
proof (rule round_f64_exact [of _ m "- 1"])
  show "real_of_int m / 2 = real_of_int m * pow2 (- 1)" by (simp add: pow2_def)
  show "\<bar>m\<bar> < 2 ^ 53" by fact
  show "- 1074 \<le> (- 1 :: int)" by simp
  have "real_of_int \<bar>m\<bar> < real_of_int (2 ^ 53)" using assms by (simp only: of_int_less_iff)
  then have "\<bar>real_of_int m\<bar> < 2 ^ 53" by simp
  then have "\<bar>real_of_int m / 2\<bar> < 2 ^ 53" by simp
  also have "(2 ^ 53 :: real) \<le> pow2 1024" by (simp add: pow2_def)
  finally show "\<bar>real_of_int m / 2\<bar> < pow2 1024" .
qed

lemma round_f64_halves:
  "\<bar>numeral n :: int\<bar> < 2 ^ 53 \<Longrightarrow> round_f64 (numeral n / 2) = Fin (numeral n / 2)"
  using round_f64_half [of "numeral n"] by simp

section \<open>Arithmetic of a table against a baseline with the same labels\<close>

lemma wf_frame_col_length:
  "wf_frame df \<Longrightarrow> j < length (data df) \<Longrightarrow> length (data df ! j) = nrows df"
  by (simp add: wf_frame_def nrows_def list_all_length)

lemma join_outer_same [simp]: "join_outer xs xs = xs"
  by (simp add: join_outer_def)

lemma reindex_same [simp]: "reindex old vals m old = vals"
  by (simp add: reindex_def)

lemma frame_op_labels:
  "labelled_like df b \<Longrightarrow> index (frame_op f df b) = index df \<and> columns (frame_op f df b) = columns df"
  by (cases b)
     (auto simp: labelled_like_def frame_op_def map_cells_def align_frame_series_def
        align_frames_def reindex_frame_def Let_def)

lemma frame_op_data:
  "labelled_like df b \<Longrightarrow>
   data (frame_op f df b) =
     (case b of
        BScalar c \<Rightarrow> map (map (\<lambda>x. f x c)) (data df)
      | BSeries s \<Rightarrow> map2 (\<lambda>col c. map (\<lambda>x. f x c) col) (data df) (s_values s)
      | BFrame g \<Rightarrow> map2 (map2 f) (data df) (data g))"
  by (cases b)
     (auto simp: labelled_like_def frame_op_def map_cells_def align_frame_series_def
        align_frames_def reindex_frame_def Let_def)

lemma frame_op_cell:
  assumes "wf_frame df" "labelled_like df b" "j < ncols df" "i < nrows df"
  shows "cell_at (frame_op f df b) j i = f (cell_at df j i) (baseline_entry b j i)"
proof -
  have lj: "j < length (data df)" using assms by (simp add: wf_frame_def ncols_def)
  have li: "i < length (data df ! j)" using assms lj by (simp add: wf_frame_col_length)
  show ?thesis
  proof (cases b)
    case (BScalar c)
    then show ?thesis using assms lj li
      by (simp add: cell_at_def frame_op_data baseline_entry_def)
  next
    case (BSeries s)
    then have "length (s_values s) = length (data df)"
      using assms by (simp add: labelled_like_def wf_series_def wf_frame_def)
    then show ?thesis using assms lj li BSeries
      by (simp add: cell_at_def frame_op_data baseline_entry_def)
  next
    case (BFrame g)
    then have g: "wf_frame g" "index g = index df" "columns g = columns df"
      using assms by (simp_all add: labelled_like_def)
    then have lg: "length (data g) = length (data df)"
      using assms by (simp add: wf_frame_def)
    have "length (data g ! j) = nrows g" using g lg lj by (simp add: wf_frame_col_length)
    then have lgi: "i < length (data g ! j)" using assms g by (simp add: nrows_def)
    show ?thesis using assms lj li BFrame lg lgi
      by (simp add: cell_at_def frame_op_data baseline_entry_def)
  qed
qed

lemma frame_op_wf:
  assumes "wf_frame df" "labelled_like df b"
  shows "wf_frame (frame_op f df b)"
proof (cases b)
  case (BScalar c)
  then show ?thesis using assms
    by (auto simp: wf_frame_def frame_op_def map_cells_def list_all_iff)
next
  case (BSeries s)
  then have "length (s_values s) = length (data df)"
    using assms by (simp add: labelled_like_def wf_series_def wf_frame_def)
  then show ?thesis using assms BSeries frame_op_labels[OF assms(2), of f]
    by (auto simp: wf_frame_def frame_op_data list_all_iff set_zip)
next
  case (BFrame g)
  then have g: "wf_frame g" "index g = index df" "columns g = columns df"
    using assms by (simp_all add: labelled_like_def)
  then show ?thesis using assms BFrame frame_op_labels[OF assms(2), of f]
    by (auto simp: wf_frame_def frame_op_data list_all_iff set_zip)
qed

lemma labelled_like_cong:
  "index df' = index df \<Longrightarrow> columns df' = columns df \<Longrightarrow>
   labelled_like df' b = labelled_like df b"
  by (cases b) (simp_all add: labelled_like_def)

lemma labelled_like_safe:
  "labelled_like df b \<Longrightarrow> labelled_like df (safe_baseline b eps)"
  by (cases b)
     (auto simp: labelled_like_def safe_baseline_def wf_series_def wf_frame_def map_cells_def
        list_all_iff)

lemma baseline_entry_safe:
  assumes "wf_frame df" "labelled_like df b" "j < ncols df" "i < nrows df"
  shows "baseline_entry (safe_baseline b eps) j i = safe_cell eps (baseline_entry b j i)"
proof (cases b)
  case (BScalar c)
  then show ?thesis by (simp add: baseline_entry_def safe_baseline_def)
next
  case (BSeries s)
  then have "j < length (s_values s)"
    using assms by (simp add: labelled_like_def wf_series_def ncols_def)
  then show ?thesis using BSeries by (simp add: baseline_entry_def safe_baseline_def)
next
  case (BFrame g)
  then have g: "wf_frame g" "index g = index df" "columns g = columns df"
    using assms by (simp_all add: labelled_like_def)
  then have lj: "j < length (data g)" using assms by (simp add: wf_frame_def ncols_def)
  then have "length (data g ! j) = nrows g" using g by (simp add: wf_frame_col_length)
  then have "i < length (data g ! j)" using assms g by (simp add: nrows_def)
  then show ?thesis using BFrame lj
    by (simp add: baseline_entry_def safe_baseline_def map_cells_def)
qed

lemma map_cells_labels [simp]:
  "index (map_cells f df) = index df" "columns (map_cells f df) = columns df"
  by (simp_all add: map_cells_def)

lemma map_cells_cell:
  "wf_frame df \<Longrightarrow> j < ncols df \<Longrightarrow> i < nrows df \<Longrightarrow>
   cell_at (map_cells f df) j i = f (cell_at df j i)"
  by (simp add: map_cells_def cell_at_def wf_frame_def ncols_def wf_frame_col_length)

lemma map_cells_wf: "wf_frame df \<Longrightarrow> wf_frame (map_cells f df)"
  by (auto simp: wf_frame_def map_cells_def list_all_iff)

lemma map_cells_dims [simp]:
  "ncols (map_cells f df) = ncols df" "nrows (map_cells f df) = nrows df"
  by (simp_all add: ncols_def nrows_def)

lemma frame_op_dims:
  "labelled_like df b \<Longrightarrow> ncols (frame_op f df b) = ncols df \<and> nrows (frame_op f df b) = nrows df"
  by (simp add: ncols_def nrows_def frame_op_labels)

lemma map_cells_comp: "map_cells f (map_cells g df) = map_cells (f \<circ> g) df"
  by (simp add: map_cells_def)

lemma map_cells_id: "map_cells (\<lambda>c. c) df = df"
  by (simp add: map_cells_def)

section \<open>Arithmetic of a table against a baseline, label by label\<close>

lemma lookup_self:
  assumes "distinct xs" "length ys = length xs"
  shows "map (\<lambda>x. case map_of (zip xs ys) x of None \<Rightarrow> d | Some v \<Rightarrow> v) xs = ys"
proof (rule nth_equalityI)
  show "length (map (\<lambda>x. case map_of (zip xs ys) x of None \<Rightarrow> d | Some v \<Rightarrow> v) xs) = length ys"
    using assms by simp
next
  fix i
  assume "i < length (map (\<lambda>x. case map_of (zip xs ys) x of None \<Rightarrow> d | Some v \<Rightarrow> v) xs)"
  then have i: "i < length xs" by simp
  have "map_of (zip xs ys) (xs ! i) = Some (ys ! i)"
    using assms i by (simp add: map_of_zip_nth)
  then show "map (\<lambda>x. case map_of (zip xs ys) x of None \<Rightarrow> d | Some v \<Rightarrow> v) xs ! i = ys ! i"
    using i by simp
qed

lemma reindex_map:
  assumes "distinct old" "length vals = length old"
  shows "reindex old vals miss new =
           map (\<lambda>l. case map_of (zip old vals) l of None \<Rightarrow> miss | Some v \<Rightarrow> v) new"
  using lookup_self [OF assms, of miss] by (simp add: reindex_def)

lemma map_of_zip_map_right:
  "map_of (zip xs (map f ys)) x = map_option f (map_of (zip xs ys) x)"
proof -
  have "zip xs (map f ys) = map (\<lambda>(k, v). (k, f v)) (zip xs ys)"
    by (simp add: zip_map2 case_prod_unfold)
  then show ?thesis by (simp add: map_of_map)
qed

lemma cell_find_tab:
  assumes "r \<in> set rs" "c \<in> set cs"
  shows "cell_find \<lparr>index = rs, columns = cs, data = map (\<lambda>c. map (\<lambda>r. g r c) rs) cs\<rparr> r c
           = Some (g r c)"
  using assms by (simp add: cell_find_def map_of_zip_map)

text \<open>A column, found by its label, holds the cells found by the row labels.\<close>

lemma column_lookup:
  assumes u: "unique_frame df"
  shows "(case map_of (zip (columns df) (data df)) c of
            None \<Rightarrow> replicate (nrows df) NaN | Some col \<Rightarrow> col)
         = map (\<lambda>r. or_nan (cell_find df r c)) (index df)"
proof (cases "map_of (zip (columns df) (data df)) c")
  case None
  then show ?thesis
    by (simp add: cell_find_def or_nan_def nrows_def map_replicate_const)
next
  case (Some col)
  then have "col \<in> set (data df)"
    by (meson in_set_zipE map_of_SomeD)
  then have len: "length col = length (index df)"
    using u by (simp add: unique_frame_def wf_frame_def list_all_iff)
  have d: "distinct (index df)" using u by (simp add: unique_frame_def)
  have "map (\<lambda>r. case map_of (zip (index df) col) r of None \<Rightarrow> NaN | Some v \<Rightarrow> v) (index df) = col"
    using d len by (rule lookup_self)
  then show ?thesis using Some by (simp add: cell_find_def or_nan_def)
qed

lemma frame_tab:
  assumes u: "unique_frame df"
  shows "data df = map (\<lambda>c. map (\<lambda>r. or_nan (cell_find df r c)) (index df)) (columns df)"
proof -
  have d: "distinct (columns df)" and l: "length (data df) = length (columns df)"
    using u by (simp_all add: unique_frame_def wf_frame_def)
  have "data df = map (\<lambda>c. case map_of (zip (columns df) (data df)) c of
            None \<Rightarrow> replicate (nrows df) NaN | Some col \<Rightarrow> col) (columns df)"
    using lookup_self [OF d l, of "replicate (nrows df) NaN"] by simp
  then show ?thesis unfolding column_lookup [OF u] .
qed

lemma set_join_outer [simp]: "set (join_outer xs ys) = set xs \<union> set ys"
  by (simp add: join_outer_def)

lemma distinct_join_outer: "distinct xs \<Longrightarrow> distinct (join_outer xs ys)"
  by (auto simp: join_outer_def)

lemma map2_same_map: "map2 h (map f xs) (map g xs) = map (\<lambda>x. h (f x) (g x)) xs"
  by (induction xs) simp_all

lemma reindex_frame_tab:
  assumes u: "unique_frame a"
  shows "reindex_frame rs cs a =
           \<lparr>index = rs, columns = cs,
            data = map (\<lambda>c. map (\<lambda>r. or_nan (cell_find a r c)) rs) cs\<rparr>"
proof -
  have di: "distinct (index a)" and dc: "distinct (columns a)"
    and l: "length (data a) = length (columns a)"
    and lc: "\<And>col. col \<in> set (data a) \<Longrightarrow> length col = length (index a)"
    using u by (simp_all add: unique_frame_def wf_frame_def list_all_iff)
  let ?F = "\<lambda>col. map (\<lambda>r. or_nan (map_of (zip (index a) col) r)) rs"
  have inner: "map (\<lambda>col. reindex (index a) col NaN rs) (data a) = map ?F (data a)"
  proof (rule map_cong [OF refl])
    fix col assume "col \<in> set (data a)"
    then have "length col = length (index a)" by (rule lc)
    then show "reindex (index a) col NaN rs = ?F col"
      using di by (simp add: reindex_map or_nan_def)
  qed
  have "reindex (columns a) (map ?F (data a)) (replicate (length rs) NaN) cs
        = map (\<lambda>c. case map_of (zip (columns a) (map ?F (data a))) c of
                      None \<Rightarrow> replicate (length rs) NaN | Some v \<Rightarrow> v) cs"
    using dc l by (simp add: reindex_map)
  also have "\<dots> = map (\<lambda>c. map (\<lambda>r. or_nan (cell_find a r c)) rs) cs"
  proof (rule map_cong [OF refl])
    fix c
    show "(case map_of (zip (columns a) (map ?F (data a))) c of
             None \<Rightarrow> replicate (length rs) NaN | Some v \<Rightarrow> v)
          = map (\<lambda>r. or_nan (cell_find a r c)) rs"
      by (cases "map_of (zip (columns a) (data a)) c")
         (simp_all add: map_of_zip_map_right cell_find_def or_nan_def map_replicate_const)
  qed
  finally show ?thesis by (simp add: reindex_frame_def inner)
qed

text \<open>
  The result of an operator between a table and a baseline, cell by cell: at each pair
  of labels of the result the operator meets the cell of the table and the entry of the
  baseline for these labels, a missing value standing for a label that is not there.
\<close>

lemma frame_op_scalar_tab:
  assumes u: "unique_frame df"
  shows "frame_op f df (BScalar v) =
           \<lparr>index = index df, columns = columns df,
            data = map (\<lambda>c. map (\<lambda>r. f (or_nan (cell_find df r c)) v) (index df)) (columns df)\<rparr>"
proof -
  have "data (frame_op f df (BScalar v)) = map (map (\<lambda>x. f x v)) (data df)"
    by (simp add: frame_op_def map_cells_def)
  also have "\<dots> = map (\<lambda>c. map (\<lambda>r. f (or_nan (cell_find df r c)) v) (index df)) (columns df)"
    by (subst frame_tab [OF u]) (simp add: comp_def)
  finally show ?thesis by (simp add: frame_op_def map_cells_def)
qed

lemma frame_op_series_tab:
  assumes u: "unique_frame df" and s: "wf_series s" "distinct (s_index s)"
  shows "frame_op f df (BSeries s) =
           \<lparr>index = index df, columns = join_outer (columns df) (s_index s),
            data = map (\<lambda>c. map (\<lambda>r. f (or_nan (cell_find df r c))
                                      (or_nan (map_of (zip (s_index s) (s_values s)) c)))
                              (index df))
                     (join_outer (columns df) (s_index s))\<rparr>"
proof -
  let ?cs = "join_outer (columns df) (s_index s)"
  have dc: "distinct (columns df)" and l: "length (data df) = length (columns df)"
    using u by (simp_all add: unique_frame_def wf_frame_def)
  have A: "reindex (columns df) (data df) (replicate (nrows df) NaN) ?cs
           = map (\<lambda>c. map (\<lambda>r. or_nan (cell_find df r c)) (index df)) ?cs"
    using dc l by (simp add: reindex_map column_lookup [OF u])
  have B: "reindex (s_index s) (s_values s) NaN ?cs
           = map (\<lambda>c. or_nan (map_of (zip (s_index s) (s_values s)) c)) ?cs"
    using s by (simp add: reindex_map wf_series_def or_nan_def)
  show ?thesis
    by (simp add: frame_op_def align_frame_series_def Let_def A B map2_same_map)
qed

lemma frame_op_frame_tab:
  assumes u: "unique_frame df" and g: "unique_frame g"
  shows "frame_op f df (BFrame g) =
           \<lparr>index = join_outer (index df) (index g),
            columns = join_outer (columns df) (columns g),
            data = map (\<lambda>c. map (\<lambda>r. f (or_nan (cell_find df r c)) (or_nan (cell_find g r c)))
                              (join_outer (index df) (index g)))
                     (join_outer (columns df) (columns g))\<rparr>"
  by (simp add: frame_op_def align_frames_def Let_def reindex_frame_tab [OF u]
        reindex_frame_tab [OF g] map2_same_map)

lemma wf_tab:
  "wf_frame \<lparr>index = rs, columns = cs, data = map (\<lambda>c. map (\<lambda>r. g r c) rs) cs\<rparr>"
  by (simp add: wf_frame_def list_all_iff)

lemma frame_op_find:
  assumes u: "unique_frame df" and b: "unique_baseline b"
    and r: "r \<in> set (index df)" and c: "c \<in> set (columns df)"
  shows "cell_find (frame_op f df b) r c
           = Some (f (or_nan (cell_find df r c)) (or_nan (baseline_find b r c)))"
proof (cases b)
  case (BScalar v)
  show ?thesis
    unfolding BScalar frame_op_scalar_tab [OF u]
    using r c by (simp add: cell_find_tab baseline_find_def or_nan_def)
next
  case (BSeries s)
  then have s: "wf_series s" "distinct (s_index s)"
    using b by (simp_all add: unique_baseline_def)
  show ?thesis
    unfolding BSeries frame_op_series_tab [OF u s]
    using r c by (simp add: cell_find_tab baseline_find_def)
next
  case (BFrame g)
  then have g: "unique_frame g" using b by (simp add: unique_baseline_def)
  show ?thesis
    unfolding BFrame frame_op_frame_tab [OF u g]
    using r c by (simp add: cell_find_tab baseline_find_def)
qed

lemma frame_op_unique:
  assumes u: "unique_frame df" and b: "unique_baseline b"
  shows "unique_frame (frame_op f df b)
         \<and> set (index df) \<subseteq> set (index (frame_op f df b))
         \<and> set (columns df) \<subseteq> set (columns (frame_op f df b))"
proof -
  have di: "distinct (index df)" and dc: "distinct (columns df)"
    using u by (simp_all add: unique_frame_def)
  show ?thesis
  proof (cases b)
    case (BScalar v)
    show ?thesis
      unfolding BScalar frame_op_scalar_tab [OF u]
      using di dc by (simp add: unique_frame_def wf_tab)
  next
    case (BSeries s)
    then have s: "wf_series s" "distinct (s_index s)"
      using b by (simp_all add: unique_baseline_def)
    show ?thesis
      unfolding BSeries frame_op_series_tab [OF u s]
      using di dc by (simp add: unique_frame_def wf_tab distinct_join_outer)
  next
    case (BFrame g)
    then have g: "unique_frame g" using b by (simp add: unique_baseline_def)
    show ?thesis
      unfolding BFrame frame_op_frame_tab [OF u g]
      using di dc by (simp add: unique_frame_def wf_tab distinct_join_outer)
  qed
qed

lemma cell_find_in:
  assumes u: "unique_frame df" and r: "r \<in> set (index df)" and c: "c \<in> set (columns df)"
  shows "\<exists>x. cell_find df r c = Some x"
proof -
  have l: "length (columns df) = length (data df)"
    using u by (simp add: unique_frame_def wf_frame_def)
  then obtain col where col: "map_of (zip (columns df) (data df)) c = Some col"
    using c map_of_zip_is_Some [OF l, of c] by blast
  then have "col \<in> set (data df)" by (meson in_set_zipE map_of_SomeD)
  then have "length (index df) = length col"
    using u by (simp add: unique_frame_def wf_frame_def list_all_iff)
  then obtain x where "map_of (zip (index df) col) r = Some x"
    using r map_of_zip_is_Some [of "index df" col r] by blast
  then show ?thesis using col by (simp add: cell_find_def)
qed

lemma cell_find_map_cells:
  "cell_find (map_cells h df) r c = map_option h (cell_find df r c)"
  by (cases "map_of (zip (columns df) (data df)) c")
     (simp_all add: cell_find_def map_cells_def map_of_zip_map_right)

lemma baseline_find_safe:
  "baseline_find (safe_baseline b eps) r c = map_option (safe_cell eps) (baseline_find b r c)"
  by (cases b)
     (simp_all add: baseline_find_def safe_baseline_def map_of_zip_map_right cell_find_map_cells)

lemma unique_baseline_safe:
  "unique_baseline b \<Longrightarrow> unique_baseline (safe_baseline b eps)"
  by (cases b)
     (auto simp: unique_baseline_def safe_baseline_def unique_frame_def wf_frame_def
        wf_series_def map_cells_def list_all_iff)

lemma deltaF_over_F_as_map:
  assumes ne: "columns df \<noteq> []"
  shows "deltaF_over_F df b eps pct clip fill =
     Inr (map_cells (\<lambda>c. dff_post pct clip fill c)
            (frame_op fdiv (frame_op fsub df (safe_baseline b eps)) (safe_baseline b eps)))"
  using ne
  by (cases pct; cases clip; cases fill)
     (simp_all add: deltaF_over_F_def Normalizer_to_float_df_def Let_def dff_post_def
        map_cells_def comp_def)

text \<open>
  \<open>deltaF_over_F\<close> at a pair of labels of the table: the quotient of the float64
  difference by the safe baseline entry, then the clean-up.
\<close>

lemma deltaF_over_F_find:
  assumes u: "unique_frame df" and ne: "columns df \<noteq> []" and b: "unique_baseline b"
    and r: "r \<in> set (index df)" and c: "c \<in> set (columns df)"
  shows "\<exists>out x. deltaF_over_F df b eps pct clip fill = Inr out
           \<and> cell_find df r c = Some x
           \<and> cell_find out r c =
               Some (dff_post pct clip fill
                 (fdiv (fsub x (or_nan (map_option (safe_cell eps) (baseline_find b r c))))
                    (or_nan (map_option (safe_cell eps) (baseline_find b r c)))))"
proof -
  define sb where "sb = safe_baseline b eps"
  define d1 where "d1 = frame_op fsub df sb"
  define d2 where "d2 = frame_op fdiv d1 sb"
  define e where "e = or_nan (map_option (safe_cell eps) (baseline_find b r c))"
  obtain x where x: "cell_find df r c = Some x" using cell_find_in [OF u r c] by blast
  have usb: "unique_baseline sb" unfolding sb_def using b by (rule unique_baseline_safe)
  have be: "or_nan (baseline_find sb r c) = e"
    by (simp add: sb_def e_def baseline_find_safe)
  have f1: "cell_find d1 r c = Some (fsub x e)"
    unfolding d1_def using frame_op_find [OF u usb r c, of fsub] x be by (simp add: or_nan_def)
  have u1: "unique_frame d1" and r1: "r \<in> set (index d1)" and c1: "c \<in> set (columns d1)"
    unfolding d1_def using frame_op_unique [OF u usb, of fsub] r c by blast+
  have f2: "cell_find d2 r c = Some (fdiv (fsub x e) e)"
    unfolding d2_def using frame_op_find [OF u1 usb r1 c1, of fdiv] f1 be
    by (simp add: or_nan_def)
  have res: "deltaF_over_F df b eps pct clip fill
             = Inr (map_cells (\<lambda>c. dff_post pct clip fill c) d2)"
    unfolding d2_def d1_def sb_def using ne by (rule deltaF_over_F_as_map)
  have "cell_find (map_cells (\<lambda>c. dff_post pct clip fill c) d2) r c
        = Some (dff_post pct clip fill (fdiv (fsub x e) e))"
    by (simp add: cell_find_map_cells f2)
  then show ?thesis using res x unfolding e_def by blast
qed

section \<open>The effective Savitzky-Golay window\<close>

lemma or_one_int: "(w::int) OR 1 = (if even w then w + 1 else w)"
  by (simp add: or_one_eq)

text \<open>
  Claim C4, as the specification states it, fails: with the default configured window 30
  on a table of 100 rows the code filters with window 31, where rounding down would
  give 29.
\<close>

theorem savgol_win_rounds_up_counterexample:
  "savgol_win 30 100 = 31 \<and> spec_savgol_win 30 100 = 29 \<and> savgol_win 30 100 \<noteq> spec_savgol_win 30 100"
  by (simp add: savgol_win_def spec_savgol_win_def)

text \<open>
  Claim C4, amended: for a table of at least 3 rows the effective window is the
  configured value made odd by rounding UP when it is even (\<open>w | 1\<close>), then clamped to
  at most the largest odd number not above the number of rows and to at least 3; the
  result is odd, at least 3 and at most the number of rows, and it is the window handed
  to the external filter for every column.
\<close>

theorem savgol_win_effective:
  assumes "3 \<le> nrows df"
  shows "savgol_win w (int (nrows df)) =
           max 3 (min (if even w then w + 1 else w)
                      (if odd (nrows df) then int (nrows df) else int (nrows df) - 1))
         \<and> odd (savgol_win w (int (nrows df)))
         \<and> 3 \<le> savgol_win w (int (nrows df))
         \<and> savgol_win w (int (nrows df)) \<le> int (nrows df)
         \<and> (\<forall>out. apply_savgol sg True (fa\<lparr>savgol_window := w\<rparr>) df = Inr out \<longrightarrow>
               data out = map (\<lambda>col. sg col (savgol_win w (int (nrows df))) (savgol_poly fa)) (data df))"
proof -
  let ?n = "int (nrows df)"
  have n3: "3 \<le> ?n" using assms by simp
  have mo: "(if ?n mod 2 = 1 then ?n else ?n - 1) = (if odd (nrows df) then ?n else ?n - 1)"
    by (simp add: odd_iff_mod_2_eq_one) presburger
  have e1: "savgol_win w ?n =
      max 3 (min (if even w then w + 1 else w) (if odd (nrows df) then ?n else ?n - 1))"
    unfolding savgol_win_def Let_def or_one_int mo ..
  have oddmax: "odd (if odd (nrows df) then ?n else ?n - 1)" by simp
  have e2: "odd (savgol_win w ?n)"
    unfolding e1 using oddmax by (auto simp: max_def min_def)
  have e3: "3 \<le> savgol_win w ?n" unfolding e1 by simp
  have e4: "savgol_win w ?n \<le> ?n" unfolding e1 using n3 by (auto simp: max_def min_def)
  have e5: "\<forall>out. apply_savgol sg True (fa\<lparr>savgol_window := w\<rparr>) df = Inr out \<longrightarrow>
               data out = map (\<lambda>col. sg col (savgol_win w ?n) (savgol_poly fa)) (data df)"
    using n3 by (auto simp: apply_savgol_def Let_def split: if_splits)
  from e1 e2 e3 e4 e5 show ?thesis by blast
qed

theorem savgol_win_effective_witness:
  "3 \<le> nrows \<lparr>index = [0, 1, 2, 3, 4 :: nat], columns = [''ROI_1''],
       data = [[Fin 1, Fin 2, Fin 3, Fin 4, Fin 5]]\<rparr>
   \<and> savgol_win 30 (int (nrows \<lparr>index = [0, 1, 2, 3, 4 :: nat], columns = [''ROI_1''],
       data = [[Fin 1, Fin 2, Fin 3, Fin 4, Fin 5]]\<rparr>)) = 5"
  using savgol_win_effective [of "\<lparr>index = [0, 1, 2, 3, 4 :: nat], columns = [''ROI_1''],
       data = [[Fin 1, Fin 2, Fin 3, Fin 4, Fin 5]]\<rparr>" 30]
  by (simp add: nrows_def)

section \<open>deltaF_over_F: safe division\<close>

lemma safe_cell_cases:
  "safe_cell eps NaN = Fin eps"
  "safe_cell eps (Fin v) = Fin (if \<bar>v\<bar> \<ge> eps then v else eps)"
  "safe_cell eps PInf = PInf"
  "safe_cell eps NInf = NInf"
  by (simp_all add: safe_cell_def)

lemma dff_post_filled: "\<exists>y. dff_post pct clip (Some v) c = Fin y"
proof -
  define c1 where "c1 = (if pct then fmul c (Fin 100) else c)"
  have e: "dff_post pct clip (Some v) c =
      (if clip then clip_lower 0 (fillna v (replace_inf c1)) else fillna v (replace_inf c1))"
    by (simp add: dff_post_def c1_def Let_def)
  obtain z where z: "fillna v (replace_inf c1) = Fin z"
    by (cases c1) (simp_all add: fillna_def replace_inf_def)
  have "\<exists>y. clip_lower 0 (Fin z) = Fin y" by (simp add: clip_lower_def)
  then show ?thesis unfolding e z by simp
qed

text \<open>
  Claim C1, as the specification states it, fails for a table without columns: the
  conversion to floats reads the type of the first column and raises IndexError, so
  nothing is computed.
\<close>

theorem deltaF_over_F_no_columns_counterexample:
  "deltaF_over_F \<lparr>index = [0::nat, 1], columns = [] :: string list, data = []\<rparr>
     (BScalar (Fin 1)) default_eps False False default_fillna_value = Inl IndexError"
  by (simp add: deltaF_over_F_def Normalizer_to_float_df_def)

text \<open>
  Claim C1, amended: for a table with at least one column and a baseline (DataFrame,
  Series or scalar), both with unique labels, \<open>deltaF_over_F\<close> returns a table, and its
  cell at a row label and a column label of the signal is the float64 quotient
  \<open>(signal - F0_safe) / F0_safe\<close>, scaled, cleaned and clipped as the options ask.
  \<open>F0_safe\<close> is the baseline entry for these labels when its absolute value is at least
  \<open>eps\<close>, and \<open>+eps\<close> otherwise; it is a missing value when the baseline has no entry for
  the labels. Over a baseline entry that is exactly 0, with \<open>eps > 0\<close>, the divisor is
  \<open>eps\<close>; and with a fill value, as by default, the cell of the result is finite.
\<close>

theorem deltaF_over_F_safe_division:
  assumes "unique_frame df" and "columns df \<noteq> []" and "unique_baseline b"
    and "r \<in> set (index df)" and "c \<in> set (columns df)"
  shows "\<exists>out x F0_safe.
      deltaF_over_F df b eps pct clip fill = Inr out
    \<and> cell_find df r c = Some x
    \<and> F0_safe = (case baseline_find b r c of
                   None \<Rightarrow> NaN
                 | Some e \<Rightarrow> if cell_ge (cell_abs e) (Fin eps) then e else Fin eps)
    \<and> cell_find out r c = Some (dff_post pct clip fill (fdiv (fsub x F0_safe) F0_safe))
    \<and> (baseline_find b r c = Some (Fin 0) \<and> 0 < eps \<longrightarrow> F0_safe = Fin eps)
    \<and> (fill \<noteq> None \<longrightarrow> (\<exists>y. cell_find out r c = Some (Fin y)))"
proof -
  define F0 where "F0 = (case baseline_find b r c of
                   None \<Rightarrow> NaN
                 | Some e \<Rightarrow> if cell_ge (cell_abs e) (Fin eps) then e else Fin eps)"
  have F0': "or_nan (map_option (safe_cell eps) (baseline_find b r c)) = F0"
    by (cases "baseline_find b r c") (simp_all add: F0_def or_nan_def safe_cell_def)
  obtain out x where out: "deltaF_over_F df b eps pct clip fill = Inr out"
    and x: "cell_find df r c = Some x"
    and cell: "cell_find out r c = Some (dff_post pct clip fill (fdiv (fsub x F0) F0))"
    using deltaF_over_F_find [OF assms, of eps pct clip fill] unfolding F0' by blast
  have zero: "baseline_find b r c = Some (Fin 0) \<and> 0 < eps \<longrightarrow> F0 = Fin eps"
    by (simp add: F0_def)
  have fin: "fill \<noteq> None \<longrightarrow> (\<exists>y. cell_find out r c = Some (Fin y))"
  proof (cases fill)
    case None
    then show ?thesis by simp
  next
    case (Some v)
    obtain y where "dff_post pct clip (Some v) (fdiv (fsub x F0) F0) = Fin y"
      using dff_post_filled by blast
    then show ?thesis using cell Some by simp
  qed
  show ?thesis
    apply (rule exI [of _ out], rule exI [of _ x], rule exI [of _ F0])
    using out x cell zero fin F0_def by simp
qed

theorem deltaF_over_F_safe_division_witness:
  "\<exists>out. deltaF_over_F
       \<lparr>index = [0::nat, 1], columns = [''ROI_1'', ''ROI_2''],
        data = [[Fin 4, Fin 6], [Fin 3, NaN]]\<rparr>
       (BSeries \<lparr>s_index = [''ROI_2'', ''ROI_1''], s_values = [Fin 0, Fin 2]\<rparr>)
       1 False False default_fillna_value = Inr out
     \<and> cell_find out 0 ''ROI_1'' = Some (Fin 1)
     \<and> cell_find out 0 ''ROI_2'' = Some (Fin 2)
     \<and> cell_find out 1 ''ROI_2'' = Some (Fin 0)"
proof -
  let ?df = "\<lparr>index = [0::nat, 1], columns = [''ROI_1'', ''ROI_2''],
        data = [[Fin 4, Fin 6], [Fin 3, NaN]]\<rparr>"
  let ?b = "BSeries \<lparr>s_index = [''ROI_2'', ''ROI_1''], s_values = [Fin 0, Fin 2]\<rparr>"
  have u: "unique_frame ?df" "columns ?df \<noteq> []" "unique_baseline ?b"
    by (simp_all add: unique_frame_def wf_frame_def unique_baseline_def wf_series_def)
  have x: "cell_find ?df 0 ''ROI_1'' = Some (Fin 4)" "cell_find ?df 0 ''ROI_2'' = Some (Fin 3)"
    "cell_find ?df 1 ''ROI_2'' = Some NaN"
    by (simp_all add: cell_find_def)
  have e: "baseline_find ?b (0::nat) ''ROI_1'' = Some (Fin 2)"
    "baseline_find ?b (0::nat) ''ROI_2'' = Some (Fin 0)"
    "baseline_find ?b (1::nat) ''ROI_2'' = Some (Fin 0)"
    by (simp_all add: baseline_find_def)
  have a: "\<exists>out. deltaF_over_F ?df ?b 1 False False default_fillna_value = Inr out
       \<and> cell_find out 0 ''ROI_1'' = Some (Fin 1)"
    using deltaF_over_F_safe_division [OF u, of 0 "''ROI_1''" 1 False False default_fillna_value] x e
    by (auto simp: default_fillna_value_def dff_post_def Let_def
          replace_inf_def fillna_def round_f64_numeral)
  have b: "\<exists>out. deltaF_over_F ?df ?b 1 False False default_fillna_value = Inr out
       \<and> cell_find out 0 ''ROI_2'' = Some (Fin 2)"
    using deltaF_over_F_safe_division [OF u, of 0 "''ROI_2''" 1 False False default_fillna_value] x e
    by (auto simp: default_fillna_value_def dff_post_def Let_def
          replace_inf_def fillna_def round_f64_numeral)
  have c: "\<exists>out. deltaF_over_F ?df ?b 1 False False default_fillna_value = Inr out
       \<and> cell_find out 1 ''ROI_2'' = Some (Fin 0)"
    using deltaF_over_F_safe_division [OF u, of 1 "''ROI_2''" 1 False False default_fillna_value] x e
    by (auto simp: default_fillna_value_def dff_post_def Let_def
          replace_inf_def fillna_def round_f64_numeral)
  from a b c show ?thesis by auto
qed

section \<open>BaselineComputer: the pre-stimulus median\<close>

lemma py_slice_upt:
  assumes "0 \<le> a" "a \<le> b" "b \<le> int (length xs)"
  shows "py_slice a b xs = map (\<lambda>i. xs ! i) [nat a ..< nat b]"
proof -
  have s: "py_slice a b xs = take (nat b - nat a) (drop (nat a) xs)"
    using assms by (simp add: py_slice_def Let_def min_def nat_diff_distrib)
  have l: "nat b \<le> length xs" using assms by linarith
  have ab: "nat a \<le> nat b" using assms by simp
  show ?thesis unfolding s using l ab
    by (auto simp: list_eq_iff_nth_eq)
qed

lemma length_py_slice:
  assumes "0 \<le> a" "a \<le> b" "b \<le> int (length xs)"
  shows "length (py_slice a b xs) = nat b - nat a"
  using py_slice_upt[OF assms] by simp

lemma length_ffill_from [simp]: "length (ffill_from p xs) = length xs"
  by (induction xs arbitrary: p) simp_all

lemma length_ffill [simp]: "length (ffill xs) = length xs"
  by (simp add: ffill_def)

lemma length_bfill [simp]: "length (bfill xs) = length xs"
  by (simp add: bfill_def)

lemma length_rolling_col [simp]: "length (rolling_col w minp stat col) = length col"
  by (simp add: rolling_col_def)

lemma wf_frame_map_cols:
  assumes "wf_frame df" "\<And>col. length (f col) = length col"
  shows "wf_frame (df\<lparr>data := map f (data df)\<rparr>)"
  using assms by (auto simp: wf_frame_def list_all_iff)

lemma bfill_ffill_props:
  "index (bfill_ffill df) = index df" "columns (bfill_ffill df) = columns df"
  "wf_frame df \<Longrightarrow> wf_frame (bfill_ffill df)"
  by (auto simp: bfill_ffill_def wf_frame_def list_all_iff)

lemma rolling_frame_props:
  assumes "rolling_frame w minp stat df = Inr base"
  shows "index base = index df" "columns base = columns df" "wf_frame df \<Longrightarrow> wf_frame base"
  using assms by (auto simp: rolling_frame_def wf_frame_def list_all_iff split: if_splits)

lemma tile_frame_props:
  "index (tile_frame f0 n df) = index df" "columns (tile_frame f0 n df) = columns df"
  by (simp_all add: tile_frame_def)

lemma tile_frame_wf:
  assumes "length (s_values f0) = length (columns df)" "n = length (index df)"
  shows "wf_frame (tile_frame f0 n df)"
  using assms by (auto simp: tile_frame_def wf_frame_def list_all_iff)

lemma median_axis0_props:
  "s_index (median_axis0 df) = columns df"
  "length (s_values (median_axis0 df)) = length (data df)"
  by (simp_all add: median_axis0_def)

lemma quantile_axis0_props:
  "s_index (quantile_axis0 q df) = columns df"
  "length (s_values (quantile_axis0 q df)) = length (data df)"
  by (simp_all add: quantile_axis0_def)

lemma pre_stim_median_result:
  assumes v: "stim_frame self = Some sf" "1 \<le> sf" "sf \<le> int (length (index df))" "3 \<le> pre_window self"
  shows "baseline_pre_stim_median self df =
     Inr (tile_frame (median_axis0 (iloc_rows (max 0 (sf - pre_window self)) sf df))
            (length (index df)) df,
          median_axis0 (iloc_rows (max 0 (sf - pre_window self)) sf df))"
  using v
  by (simp add: baseline_pre_stim_median_def validate_stim_and_window_def
        validate_positive_def Let_def)

section \<open>BaselineComputer: validation of the pre-stimulus mode\<close>

text \<open>
  Claim C9: in \<open>pre_stim_median\<close> mode the baseline computation fails if and only if the
  stimulus frame is missing or outside \<open>[1, n]\<close> or the pre-window is below 3. Every
  failure is the ValueError of the validation, which runs first: a failing call returns
  the error alone, with no table and no vector, and a passing validation always yields
  both.
\<close>

theorem pre_stim_median_validation:
  "(isl (baseline_pre_stim_median self df) \<longleftrightarrow>
      (stim_frame self = None
       \<or> (\<exists>sf. stim_frame self = Some sf \<and> (sf < 1 \<or> int (nrows df) < sf))
       \<or> pre_window self < 3))
   \<and> (\<forall>e. baseline_pre_stim_median self df = Inl e \<longrightarrow>
         (\<exists>msg. e = ValueError msg) \<and> validate_stim_and_window self (int (nrows df)) = Inl e)
   \<and> (\<forall>u. validate_stim_and_window self (int (nrows df)) = Inr u \<longrightarrow>
         (\<exists>F0 f0. baseline_pre_stim_median self df = Inr (F0, f0)))
   \<and> (mode self = ''pre_stim_median'' \<longrightarrow> compute self df = baseline_pre_stim_median self df)"
proof (cases "stim_frame self")
  case None
  then show ?thesis
    by (simp add: baseline_pre_stim_median_def validate_stim_and_window_def Let_def nrows_def
          compute_def)
next
  case (Some sf)
  then show ?thesis
    by (auto simp: baseline_pre_stim_median_def validate_stim_and_window_def Let_def nrows_def
          compute_def validate_positive_def split: if_splits)
qed

theorem pre_stim_median_validation_witness:
  "compute
     \<lparr>mode = ''pre_stim_median'', stim_frame = Some 6, pre_window = 3, rolling_window = 101,
      global_percentile_q = 30, rolling_percentile_q = 10, roll_min_frac = 1 / 5\<rparr>
     \<lparr>index = [0::nat, 1, 2, 3, 4], columns = [''ROI_1''],
      data = [[Fin 1, Fin 5, Fin 2, NaN, Fin 9]]\<rparr>
   = Inl (ValueError ''STIM_FRAME out of range after trimming'')
   \<and> isl (baseline_pre_stim_median
     \<lparr>mode = ''pre_stim_median'', stim_frame = Some 5, pre_window = 2, rolling_window = 101,
      global_percentile_q = 30, rolling_percentile_q = 10, roll_min_frac = 1 / 5\<rparr>
     \<lparr>index = [0::nat, 1, 2, 3, 4], columns = [''ROI_1''],
      data = [[Fin 1, Fin 5, Fin 2, NaN, Fin 9]]\<rparr>)
   \<and> \<not> isl (baseline_pre_stim_median
     \<lparr>mode = ''pre_stim_median'', stim_frame = Some 5, pre_window = 3, rolling_window = 101,
      global_percentile_q = 30, rolling_percentile_q = 10, roll_min_frac = 1 / 5\<rparr>
     \<lparr>index = [0::nat, 1, 2, 3, 4], columns = [''ROI_1''],
      data = [[Fin 1, Fin 5, Fin 2, NaN, Fin 9]]\<rparr>)"
proof -
  let ?df = "\<lparr>index = [0::nat, 1, 2, 3, 4], columns = [''ROI_1''],
      data = [[Fin 1, Fin 5, Fin 2, NaN, Fin 9]]\<rparr>"
  let ?bc = "\<lambda>sf pw. \<lparr>mode = ''pre_stim_median'', stim_frame = Some sf, pre_window = pw,
      rolling_window = 101, global_percentile_q = 30, rolling_percentile_q = 10,
      roll_min_frac = 1 / 5\<rparr>"
  have a: "compute (?bc 6 3) ?df = Inl (ValueError ''STIM_FRAME out of range after trimming'')"
    using pre_stim_median_validation[of "?bc 6 3" ?df]
    by (simp add: baseline_pre_stim_median_def validate_stim_and_window_def Let_def)
  have b: "isl (baseline_pre_stim_median (?bc 5 2) ?df)"
    using pre_stim_median_validation[of "?bc 5 2" ?df] by (simp add: nrows_def)
  have c: "\<not> isl (baseline_pre_stim_median (?bc 5 3) ?df)"
    using pre_stim_median_validation[of "?bc 5 3" ?df] by (simp add: nrows_def)
  show ?thesis using a b c by simp
qed

section \<open>FilterApplier: the Gaussian filter with a non-positive sigma\<close>

lemma isna_iff: "isna c \<longleftrightarrow> c = NaN"
  by (cases c) simp_all

lemma ffill_from_keeps:
  "i < length xs \<Longrightarrow> \<not> isna (xs ! i) \<Longrightarrow> ffill_from p xs ! i = xs ! i"
proof (induction xs arbitrary: p i)
  case Nil
  then show ?case by simp
next
  case (Cons x xs)
  then show ?case by (cases i) auto
qed

lemma ffill_keeps: "i < length xs \<Longrightarrow> \<not> isna (xs ! i) \<Longrightarrow> ffill xs ! i = xs ! i"
  by (simp add: ffill_def ffill_from_keeps)

lemma bfill_keeps:
  assumes "i < length xs" "\<not> isna (xs ! i)"
  shows "bfill xs ! i = xs ! i"
proof -
  let ?k = "length xs - Suc i"
  have k: "?k < length (rev xs)" using assms(1) by simp
  have rk: "rev xs ! ?k = xs ! i" using assms(1) by (simp add: rev_nth)
  have "bfill xs ! i = ffill (rev xs) ! ?k"
    using assms(1) by (simp add: bfill_def rev_nth)
  also have "\<dots> = rev xs ! ?k" using k rk assms(2) by (intro ffill_keeps) simp_all
  finally show ?thesis using rk by simp
qed

lemma filled_keeps:
  assumes "i < length xs" "\<not> isna (xs ! i)"
  shows "ffill (bfill xs) ! i = xs ! i"
proof -
  have "\<not> isna (bfill xs ! i)" using assms by (simp add: bfill_keeps)
  then have "ffill (bfill xs) ! i = bfill xs ! i" using assms(1) by (intro ffill_keeps) simp_all
  then show ?thesis using assms by (simp add: bfill_keeps)
qed

text \<open>Masking a filled column with the column's own mask gives the column back.\<close>

lemma restore_filled_col:
  "map2 (\<lambda>v m. if \<not> m then v else NaN)
     (if \<not> list_all isna col then ffill (bfill col) else col) (map isna col) = col"
  by (auto simp: list_eq_iff_nth_eq filled_keeps isna_iff)

lemma map2_same_list: "map2 h (map f xs) (map g xs) = map (\<lambda>x. h (f x) (g x)) xs"
  by (induction xs) simp_all

lemma restore_filled_data:
  "map2 (map2 (\<lambda>v m. if \<not> m then v else NaN))
     (map (\<lambda>col. if \<not> list_all isna col then ffill (bfill col) else col) cols)
     (map (map isna) cols) = cols"
  unfolding map2_same_list restore_filled_col by simp

text \<open>
  Claim C8: with \<open>sigma \<le> 0\<close> the Gaussian method of \<open>FilterApplier.apply\<close> returns a
  table equal to its input, whatever the table holds, missing cells included.
\<close>

theorem gaussian_nonpositive_sigma_identity:
  assumes "filter_method self = ''gaussian''" and "gaussian_sigma self \<le> 0"
  shows "FilterApplier_apply savgol_filter HAVE_SCIPY_SG HAVE_SCIPY_GAUSS self df = Inr df"
proof (cases "empty_frame df")
  case True
  then show ?thesis by (simp add: FilterApplier_apply_def FilterApplier_to_float_df_def)
next
  case False
  then show ?thesis
    using assms
    by (simp add: FilterApplier_apply_def FilterApplier_to_float_df_def apply_gaussian_def restore_nans_def Let_def
          restore_filled_data)
qed

theorem gaussian_nonpositive_sigma_identity_witness:
  "FilterApplier_apply (\<lambda>col w p. col) True True
     \<lparr>filter_method = ''gaussian'', gaussian_sigma = 0, gauss_boundary = ''reflect'',
      savgol_window = 30, savgol_poly = 3\<rparr>
     \<lparr>index = [0::nat, 1, 2, 3], columns = [''ROI_1'', ''ROI_2''],
      data = [[Fin 1, NaN, Fin 3, NaN], [NaN, NaN, NaN, NaN]]\<rparr>
   = Inr \<lparr>index = [0::nat, 1, 2, 3], columns = [''ROI_1'', ''ROI_2''],
      data = [[Fin 1, NaN, Fin 3, NaN], [NaN, NaN, NaN, NaN]]\<rparr>"
  using gaussian_nonpositive_sigma_identity
    [of "\<lparr>filter_method = ''gaussian'', gaussian_sigma = 0, gauss_boundary = ''reflect'',
      savgol_window = 30, savgol_poly = 3\<rparr>" "\<lambda>col w p. col" True True
      "\<lparr>index = [0::nat, 1, 2, 3], columns = [''ROI_1'', ''ROI_2''],
      data = [[Fin 1, NaN, Fin 3, NaN], [NaN, NaN, NaN, NaN]]\<rparr>"]
  by simp

section \<open>Gaussian smoothing: the fallback against SciPy\<close>

lemma upto_m1_1: "[- 1 .. (1::int)] = [-1, 0, 1]"
  by (simp add: upto.simps)

lemma py_round_three_quarters: "py_round (3 / 4) = 1"
proof -
  have "\<lfloor>3 / 4 :: real\<rfloor> = 0" by (simp add: floor_eq_iff)
  then show ?thesis by (simp add: py_round_def Let_def)
qed

lemma scipy_radius_quarter: "nat \<lfloor>4 * (1 / 4 :: real) + 1 / 2\<rfloor> = 1"
proof -
  have "\<lfloor>3 / 2 :: real\<rfloor> = 1" by (simp add: floor_eq_iff)
  then show ?thesis by simp
qed

lemma gaussian_kernel_quarter:
  "gaussian_kernel (1 / 4) (Suc 0) =
     [exp (- 8) / (1 + 2 * exp (- 8)), 1 / (1 + 2 * exp (- 8)), exp (- 8) / (1 + 2 * exp (- 8))]"
  by (simp add: gaussian_kernel_def Let_def upto_m1_1 power2_eq_square)

lemma gaussian_numpy_quarter_reflect: "gaussian_numpy
     \<lparr>filter_method = ''gaussian'', gaussian_sigma = 1 / 4, gauss_boundary = ''reflect'',
      savgol_window = 30, savgol_poly = 3\<rparr>
     \<lparr>index = [0::nat, 1], columns = [''ROI_1''], data = [[Fin 1, Fin 0]]\<rparr>
   = Inr \<lparr>index = [0, 1], columns = [''ROI_1''],
          data = [[Fin (1 / (1 + 2 * exp (- 8))),
                   Fin (2 * exp (- 8) / (1 + 2 * exp (- 8)))]]\<rparr>"
  by (simp add: gaussian_numpy_def Let_def py_round_three_quarters gaussian_kernel_quarter
      np_pad_def ext_cell_def np_convolve_valid_def convolve_core_def dot_def upt_conv_Cons
      add_divide_distrib)

lemma gaussian_ndimage_quarter_reflect: "gaussian_ndimage
     \<lparr>filter_method = ''gaussian'', gaussian_sigma = 1 / 4, gauss_boundary = ''reflect'',
      savgol_window = 30, savgol_poly = 3\<rparr>
     \<lparr>index = [0::nat, 1], columns = [''ROI_1''], data = [[Fin 1, Fin 0]]\<rparr>
   = Inr \<lparr>index = [0, 1], columns = [''ROI_1''],
          data = [[Fin ((1 + exp (- 8)) / (1 + 2 * exp (- 8))),
                   Fin (exp (- 8) / (1 + 2 * exp (- 8)))]]\<rparr>"
  by (simp add: gaussian_ndimage_def scipy_mode_def gaussian_filter1d_def Let_def
      scipy_radius_quarter gaussian_kernel_quarter correlate1d_def
      ext_cell_def dot_def upt_conv_Cons add_divide_distrib)

lemma default_sigma_radii:
  "nat (max 1 (py_round (3 * 2))) = 6 \<and> nat \<lfloor>4 * (2::real) + 1 / 2\<rfloor> = 8"
proof -
  have "\<lfloor>17 / 2 :: real\<rfloor> = 8" by (simp add: floor_eq_iff)
  then show ?thesis by (simp add: py_round_def Let_def)
qed

text \<open>
  Claim C5 at a failing input: \<open>sigma = 0.25\<close>, boundary \<open>reflect\<close>, one channel with the
  two frames 1 and 0. Both implementations use the kernel of radius 1, but the fallback
  continues the sequence without repeating the end value, where SciPy's \<open>reflect\<close>
  repeats it: the first frame comes out as \<open>1 / (1 + 2 exp(-8))\<close> from the fallback and
  as \<open>(1 + exp(-8)) / (1 + 2 exp(-8))\<close> from SciPy.
\<close>

theorem gaussian_fallback_differs:
  "gaussian_numpy
     \<lparr>filter_method = ''gaussian'', gaussian_sigma = 1 / 4, gauss_boundary = ''reflect'',
      savgol_window = 30, savgol_poly = 3\<rparr>
     \<lparr>index = [0::nat, 1], columns = [''ROI_1''], data = [[Fin 1, Fin 0]]\<rparr>
   = Inr \<lparr>index = [0, 1], columns = [''ROI_1''],
          data = [[Fin (1 / (1 + 2 * exp (- 8))),
                   Fin (2 * exp (- 8) / (1 + 2 * exp (- 8)))]]\<rparr>
   \<and> gaussian_ndimage
     \<lparr>filter_method = ''gaussian'', gaussian_sigma = 1 / 4, gauss_boundary = ''reflect'',
      savgol_window = 30, savgol_poly = 3\<rparr>
     \<lparr>index = [0::nat, 1], columns = [''ROI_1''], data = [[Fin 1, Fin 0]]\<rparr>
   = Inr \<lparr>index = [0, 1], columns = [''ROI_1''],
          data = [[Fin ((1 + exp (- 8)) / (1 + 2 * exp (- 8))),
                   Fin (exp (- 8) / (1 + 2 * exp (- 8)))]]\<rparr>
   \<and> (1 + exp (- 8)) / (1 + 2 * exp (- 8)) - 1 / (1 + 2 * exp (- 8))
       = exp (- 8) / (1 + 2 * exp (- 8 :: real))
   \<and> 0 < exp (- 8) / (1 + 2 * exp (- 8 :: real))"
proof -
  have pos: "0 < 1 + 2 * exp (- 8 :: real)" by (simp add: add_pos_pos)
  have d: "(1 + exp (- 8)) / (1 + 2 * exp (- 8)) - 1 / (1 + 2 * exp (- 8))
       = exp (- 8) / (1 + 2 * exp (- 8 :: real))"
    by (simp add: diff_divide_distrib [symmetric])
  have p: "0 < exp (- 8) / (1 + 2 * exp (- 8 :: real))" using pos by simp
  show ?thesis
    using gaussian_numpy_quarter_reflect gaussian_ndimage_quarter_reflect d p by simp
qed

section \<open>Filling and filtering one column\<close>

lemma ffill_from_set:
  "set (ffill_from p xs) \<subseteq> {p} \<union> {x \<in> set xs. \<not> isna x}"
  by (induction xs arbitrary: p) auto

lemma ffill_from_valid:
  "\<not> isna p \<Longrightarrow> \<forall>x \<in> set (ffill_from p xs). \<not> isna x"
  using ffill_from_set[of p xs] by auto

lemma ffill_from_nonempty: "xs \<noteq> [] \<Longrightarrow> ffill_from p xs \<noteq> []"
  by (cases xs) simp_all

lemma ffill_from_last_valid:
  "\<exists>x \<in> set xs. \<not> isna x \<Longrightarrow> \<not> isna (last (ffill_from p xs))"
proof (induction xs arbitrary: p)
  case Nil
  then show ?case by simp
next
  case (Cons x xs)
  define q where "q = (if isna x then p else x)"
  have step: "ffill_from p (x # xs) = q # ffill_from q xs" by (simp add: q_def)
  show ?case
  proof (cases "xs = []")
    case True
    then have "\<not> isna x" using Cons.prems by simp
    then show ?thesis using True by simp
  next
    case ne: False
    have l: "last (ffill_from p (x # xs)) = last (ffill_from q xs)"
      unfolding step using ffill_from_nonempty[OF ne, of q] by simp
    show ?thesis
    proof (cases "\<exists>y \<in> set xs. \<not> isna y")
      case True
      show ?thesis unfolding l using True by (rule Cons.IH)
    next
      case False
      then have x: "\<not> isna x" using Cons.prems by simp
      then have qx: "\<not> isna q" by (simp add: q_def)
      have "last (ffill_from q xs) \<in> set (ffill_from q xs)"
        using ffill_from_nonempty[OF ne, of q] by simp
      then show ?thesis unfolding l using ffill_from_valid[OF qx, of xs] by blast
    qed
  qed
qed

lemma bfill_set: "set (bfill xs) \<subseteq> {NaN} \<union> {x \<in> set xs. \<not> isna x}"
  using ffill_from_set[of NaN "rev xs"] by (auto simp: bfill_def ffill_def)

lemma bfill_hd_valid:
  assumes "\<exists>x \<in> set xs. \<not> isna x"
  shows "bfill xs \<noteq> [] \<and> \<not> isna (hd (bfill xs))"
proof -
  have ne: "xs \<noteq> []" using assms by auto
  then have f: "ffill (rev xs) \<noteq> []" by (cases "rev xs") (auto simp: ffill_def)
  have "\<not> isna (last (ffill (rev xs)))"
    unfolding ffill_def using assms by (intro ffill_from_last_valid) simp
  then show ?thesis using f by (simp add: bfill_def hd_rev)
qed

lemma ffill_hd_valid:
  assumes "ys \<noteq> []" "\<not> isna (hd ys)"
  shows "set (ffill ys) \<subseteq> {x \<in> set ys. \<not> isna x}"
proof -
  obtain y ys' where ys: "ys = y # ys'" using assms(1) by (cases ys) auto
  then have y: "\<not> isna y" using assms(2) by simp
  have "ffill ys = y # ffill_from y ys'" using ys y by (simp add: ffill_def)
  then show ?thesis using ffill_from_set[of y ys'] y ys by auto
qed

text \<open>A column with a value is filled with values of its own, and none is left missing.\<close>

lemma filled_set:
  assumes "\<not> list_all isna col"
  shows "set (ffill (bfill col)) \<subseteq> {x \<in> set col. \<not> isna x}"
proof -
  have e: "\<exists>x \<in> set col. \<not> isna x" using assms by (auto simp: list_all_iff)
  have a: "set (ffill (bfill col)) \<subseteq> {x \<in> set (bfill col). \<not> isna x}"
    using bfill_hd_valid[OF e] by (intro ffill_hd_valid) simp_all
  show ?thesis
  proof
    fix x assume "x \<in> set (ffill (bfill col))"
    then have x: "x \<in> set (bfill col)" "\<not> isna x" using a by auto
    then have "x \<noteq> NaN" by auto
    then have "x \<in> set col" using x(1) bfill_set[of col] by auto
    then show "x \<in> {x \<in> set col. \<not> isna x}" using x(2) by simp
  qed
qed

lemma filled_finite:
  assumes "\<not> list_all isna col" "list_all (\<lambda>c. \<not> isinf c) col"
  shows "list_all isfinite (ffill (bfill col))"
proof -
  have "isfinite x" if "x \<in> set (ffill (bfill col))" for x
  proof -
    have "x \<in> set col" "\<not> isna x" using that filled_set[OF assms(1)] by auto
    then have "\<not> isinf x" using assms(2) by (auto simp: list_all_iff)
    then show ?thesis using \<open>\<not> isna x\<close> by (cases x) simp_all
  qed
  then show ?thesis by (simp add: list_all_iff)
qed

lemma foldl_add_finite:
  "list_all isfinite zs \<Longrightarrow> isfinite (foldl cell_add (Fin a) zs)"
proof (induction zs arbitrary: a)
  case Nil
  then show ?case by simp
next
  case (Cons z zs)
  then obtain v where "z = Fin v" by (cases z) simp_all
  then show ?case using Cons by simp
qed

lemma mul_finite: "isfinite x \<Longrightarrow> isfinite y \<Longrightarrow> isfinite (cell_mul x y)"
  by (cases x; cases y) simp_all

lemma dot_finite:
  assumes "list_all isfinite xs" "list_all isfinite ys"
  shows "isfinite (dot xs ys)"
proof -
  have "list_all isfinite (map2 cell_mul xs ys)"
    using assms by (auto simp: list_all_iff intro!: mul_finite elim!: in_set_zipE)
  then show ?thesis unfolding dot_def by (rule foldl_add_finite)
qed

lemma ext_index_range:
  assumes "0 < n" "b \<noteq> Constant"
  shows "0 \<le> ext_index b n k \<and> ext_index b n k < n"
proof (cases b)
  case Edge
  then show ?thesis using assms by auto
next
  case Reflect
  show ?thesis
  proof (cases "n = 1")
    case True
    then show ?thesis using Reflect by simp
  next
    case False
    then have p: "0 < 2 * (n - 1)" using assms by simp
    have m: "0 \<le> k mod (2 * (n - 1))" "k mod (2 * (n - 1)) < 2 * (n - 1)"
      using p by simp_all
    show ?thesis using Reflect False m by (auto simp: Let_def)
  qed
next
  case Symmetric
  have m: "0 \<le> k mod (2 * n)" "k mod (2 * n) < 2 * n" using assms by simp_all
  show ?thesis using Symmetric m by (auto simp: Let_def)
next
  case Wrap
  then show ?thesis using assms by simp
next
  case Constant
  then show ?thesis using assms by simp
qed

lemma ext_cell_finite:
  assumes "list_all isfinite a" "a \<noteq> []"
  shows "isfinite (ext_cell b a k)"
proof -
  let ?n = "int (length a)"
  have n: "0 < ?n" using assms(2) by simp
  have inr: "isfinite (a ! nat q)" if "0 \<le> q" "q < ?n" for q
    using that assms(1) by (simp add: list_all_length)
  show ?thesis
  proof (cases "0 \<le> k \<and> k < ?n")
    case True
    then show ?thesis using inr by (simp add: ext_cell_def)
  next
    case False
    show ?thesis
    proof (cases "b = Constant")
      case True
      then show ?thesis using False by (auto simp: ext_cell_def Let_def)
    next
      case nc: False
      have "isfinite (a ! nat (ext_index b ?n k))"
        using ext_index_range[OF n nc, of k] inr by blast
      then show ?thesis using False nc by (auto simp: ext_cell_def Let_def)
    qed
  qed
qed

lemma length_gaussian_kernel [simp]: "length (gaussian_kernel sigma r) = 2 * r + 1"
  by (simp add: gaussian_kernel_def Let_def)

lemma length_np_pad [simp]: "length (np_pad a r b) = length a + 2 * r"
  by (simp add: np_pad_def)

lemma np_pad_finite:
  "list_all isfinite a \<Longrightarrow> a \<noteq> [] \<Longrightarrow> list_all isfinite (np_pad a r b)"
  by (simp add: np_pad_def list_all_iff ext_cell_finite)

lemma numpy_col_length:
  assumes "a \<noteq> []"
  shows "length (np_convolve_valid (np_pad a r b) (map Fin (gaussian_kernel sigma r))) = length a"
proof -
  have "0 < length a" using assms by simp
  then show ?thesis by (simp add: np_convolve_valid_def convolve_core_def)
qed

lemma convolve_core_finite:
  assumes "list_all isfinite a" "list_all isfinite v"
  shows "list_all isfinite (convolve_core a v)"
proof -
  have "isfinite (dot (take (length v) (drop i a)) (rev v))" for i
    using assms
    by (intro dot_finite) (auto simp: list_all_iff dest: in_set_takeD in_set_dropD)
  then show ?thesis by (simp add: convolve_core_def list_all_iff del: upt_Suc)
qed

lemma numpy_col_finite:
  assumes "list_all isfinite a" "a \<noteq> []"
  shows "list_all isfinite (np_convolve_valid (np_pad a r b) (map Fin ws))"
proof -
  have k: "list_all isfinite (map Fin ws)" by (simp add: list_all_iff)
  show ?thesis
    using np_pad_finite[OF assms, of r b] k
    by (simp add: np_convolve_valid_def convolve_core_finite)
qed

lemma scipy_col_length [simp]: "length (gaussian_filter1d a sigma b) = length a"
  by (simp add: gaussian_filter1d_def correlate1d_def Let_def)

lemma correlate1d_finite:
  assumes "list_all isfinite a" "a \<noteq> []" "list_all isfinite ws"
  shows "list_all isfinite (correlate1d a ws b)"
proof -
  have "isfinite (dot (map (\<lambda>k. ext_cell b a (f k)) ks) ws)" for f ks
    using assms by (intro dot_finite) (auto simp: list_all_iff ext_cell_finite)
  then show ?thesis
    unfolding correlate1d_def Let_def list_all_iff by auto
qed

lemma scipy_col_finite:
  assumes "list_all isfinite a" "a \<noteq> []"
  shows "list_all isfinite (gaussian_filter1d a sigma b)"
proof -
  have w: "list_all isfinite (map Fin ws)" for ws by (simp add: list_all_iff)
  show ?thesis
    unfolding gaussian_filter1d_def Let_def
    using assms(1,2) w by (rule correlate1d_finite)
qed

end
